theory Spec2Isabelle
  imports Main "HOL-Library.List_Lexorder" "HOL-Library.Char_ord" "HOL-Library.AList"
begin

section \<open>JavaScript values\<close>

text \<open>
  The hooks and interceptors of the repository handle untyped JSON: a WebSocket frame or a
  REST body is whatever the server sent. A parsed value is a \<open>json\<close>; the result of a
  property access is a \<open>json option\<close>, with \<open>None\<close> for \<open>undefined\<close>. Numbers are
  integers here (timestamps in milliseconds, prices as the examples of the specification
  write them). An object is the list of its property definitions in order; as in a
  JavaScript object literal, a later definition of a key overrides an earlier one.
\<close>

datatype json =
    JNull
  | JBool bool
  | JNum int
  | JStr string
  | JArr "json list"
  | JObj "(string \<times> json) list"

datatype js_error = TypeError | SyntaxError | NetworkError

text \<open>Truthiness, as \<open>if (v)\<close>, \<open>v || w\<close> and \<open>!v\<close> read it.\<close>

fun truthy :: "json option \<Rightarrow> bool" where
  "truthy None = False"
| "truthy (Some JNull) = False"
| "truthy (Some (JBool b)) = b"
| "truthy (Some (JNum n)) = (n \<noteq> 0)"
| "truthy (Some (JStr s)) = (s \<noteq> [])"
| "truthy (Some (JArr xs)) = True"
| "truthy (Some (JObj kvs)) = True"

text \<open>
  \<open>v.k\<close> for the property names the sources read (\<open>type\<close>, \<open>data\<close>, \<open>symbol\<close>,
  \<open>summaries\<close>, \<open>access_token\<close>, \<open>user\<close>, \<open>exp\<close>): none is \<open>length\<close> or an index,
  so only an object has them. Reading a property of \<open>null\<close> throws a TypeError.
\<close>

fun get_prop :: "json \<Rightarrow> string \<Rightarrow> js_error + json option" where
  "get_prop JNull k = Inl TypeError"
| "get_prop (JObj kvs) k = Inr (map_of (rev kvs) k)"
| "get_prop v k = Inr None"

text \<open>\<open>String.prototype.toUpperCase\<close> on ASCII text (symbols are ASCII tickers).\<close>

definition toUpperCase_char :: "char \<Rightarrow> char" where
  "toUpperCase_char c =
     (case map_of (zip ''abcdefghijklmnopqrstuvwxyz'' ''ABCDEFGHIJKLMNOPQRSTUVWXYZ'') c of
        Some u \<Rightarrow> u
      | None \<Rightarrow> c)"

definition toUpperCase :: "string \<Rightarrow> string" where
  "toUpperCase s = map toUpperCase_char s"

text \<open>
  A JavaScript \<open>Set\<close> of strings: its elements in insertion order, without repetition.
  \<open>set_from_list\<close> is \<open>Array.from(new Set(xs))\<close>: the first occurrence of each element,
  in order.
\<close>

definition set_add :: "'a \<Rightarrow> 'a list \<Rightarrow> 'a list" where
  "set_add x xs = (if x \<in> set xs then xs else xs @ [x])"

definition set_delete :: "'a \<Rightarrow> 'a list \<Rightarrow> 'a list" where
  "set_delete x xs = removeAll x xs"

definition set_from_list :: "'a list \<Rightarrow> 'a list" where
  "set_from_list xs = foldl (\<lambda>acc x. set_add x acc) [] xs"

text \<open>
  Object spread \<open>{...a, ...b}\<close>: the own enumerable properties of \<open>a\<close>, then those of
  \<open>b\<close>, are defined on a fresh object; defining a key again keeps its place and replaces
  its value. An object spreads its properties, an array its elements under their indices,
  a string its characters under theirs; \<open>null\<close>, \<open>undefined\<close>, numbers and booleans
  spread nothing.
\<close>

definition digit_char :: "nat \<Rightarrow> char" where
  "digit_char d = ''0123456789'' ! d"

fun decimal :: "nat \<Rightarrow> string" where
  "decimal n = (if 10 \<le> n then decimal (n div 10) @ [digit_char (n mod 10)] else [digit_char n])"

declare decimal.simps [simp del]

fun index_props :: "nat \<Rightarrow> json list \<Rightarrow> (string \<times> json) list" where
  "index_props i [] = []"
| "index_props i (x # xs) = (decimal i, x) # index_props (Suc i) xs"

fun own_props :: "json option \<Rightarrow> (string \<times> json) list" where
  "own_props (Some (JObj kvs)) = kvs"
| "own_props (Some (JArr xs)) = index_props 0 xs"
| "own_props (Some (JStr s)) = index_props 0 (map (\<lambda>c. JStr [c]) s)"
| "own_props v = []"

definition define_props :: "(string \<times> json) list \<Rightarrow> (string \<times> json) list \<Rightarrow> (string \<times> json) list" where
  "define_props obj kvs = foldl (\<lambda>acc (k, v). AList.update k v acc) obj kvs"

definition spread :: "json option \<Rightarrow> json option \<Rightarrow> (string \<times> json) list" where
  "spread a b = define_props [] (own_props a @ own_props b)"

text \<open>
  \<open>try { body } catch (e) {}\<close>: what the body did to the state before it threw stays;
  the exception goes no further.
\<close>

definition catch_all :: "'s \<times> js_error option \<Rightarrow> 's \<times> js_error option" where
  "catch_all r = (fst r, None)"

section \<open>The subscription manager: \<open>useVisibleSummaries\<close> (apps/web/app/hooks)\<close>

datatype ready_state = CONNECTING | OPEN | CLOSING | CLOSED

text \<open>
  The socket \<open>wsRef.current\<close> points to. \<open>readyState\<close> is the browser's; \<open>send_throws\<close>
  says whether \<open>send\<close> on this socket throws (the source catches that).
\<close>

record websocket =
  ws_id :: nat
  readyState :: ready_state
  send_throws :: bool

text \<open>The request \<open>fetchSnapshot\<close> sends: the query string of \<open>GET /market/summaries\<close>.\<close>

record summaries_request =
  req_symbols :: "string list"
  include_klines :: bool
  kline_interval :: string
  kline_limit :: int

text \<open>
  What the hook does to the world outside its refs, in order: socket calls, timers and
  REST requests. \<open>WsNew i syms\<close> is \<open>new WebSocket(url)\<close> with the comma-joined
  \<open>syms\<close> in the URL; \<open>WsSend i syms\<close> is \<open>send({action: "replace", symbols: syms})\<close>;
  \<open>WsOnOpen i syms\<close> registers the listener that sends that message once socket \<open>i\<close> opens.
\<close>

datatype effect =
    WsNew nat "string list"
  | WsSend nat "string list"
  | WsOnOpen nat "string list"
  | WsClose nat
  | ClearTimeout nat
  | SetTimeout nat
  | Fetch summaries_request

record hook_state =
  visibleSet :: "string list"
  extraSymbols :: "string list"
  wsRef :: "websocket option"
  lastSentSymbols :: "string list option"
  pendingVisibleChange :: "nat option"
  latest :: "json option \<Rightarrow> json option"
  lastSnapshotFetch :: "string \<Rightarrow> int option"
  tick :: nat
  next_id :: nat
  effects :: "effect list"

text \<open>
  \<open>scheduleVisibleUpdate\<close>: clear the pending debounce timer, if any, and set a new one
  (after \<open>batchMs\<close>) that will run \<open>connectWS\<close> on the visible set. \<open>next_id\<close> numbers
  the handles the browser gives out.
\<close>

definition scheduleVisibleUpdate :: "hook_state \<Rightarrow> hook_state" where
  "scheduleVisibleUpdate st =
     st\<lparr> effects := effects st
            @ (case pendingVisibleChange st of Some t \<Rightarrow> [ClearTimeout t] | None \<Rightarrow> [])
            @ [SetTimeout (next_id st)],
         pendingVisibleChange := Some (next_id st),
         next_id := Suc (next_id st) \<rparr>"

definition addExtraSymbol :: "string \<Rightarrow> hook_state \<Rightarrow> hook_state" where
  "addExtraSymbol symbol st =
     (if symbol = [] then st
      else scheduleVisibleUpdate
             (st\<lparr> extraSymbols := set_add (toUpperCase symbol) (extraSymbols st) \<rparr>))"

definition removeExtraSymbol :: "string \<Rightarrow> hook_state \<Rightarrow> hook_state" where
  "removeExtraSymbol symbol st =
     (if symbol = [] then st
      else scheduleVisibleUpdate
             (st\<lparr> extraSymbols := set_delete (toUpperCase symbol) (extraSymbols st) \<rparr>))"

definition hook_init :: hook_state where
  "hook_init =
     \<lparr> visibleSet = [], extraSymbols = [], wsRef = None, lastSentSymbols = None,
       pendingVisibleChange = None, latest = (\<lambda>k. None), lastSnapshotFetch = (\<lambda>k. None),
       tick = 0, next_id = 0, effects = [] \<rparr>"

subsection \<open>Reconciliation: \<open>connectWS\<close>\<close>

text \<open>
  \<open>xs.every((v, i) => v === ys[i])\<close>, used after the lengths were found equal.
\<close>

definition every_eq_at :: "string list \<Rightarrow> string list \<Rightarrow> bool" where
  "every_eq_at xs ys = list_all (\<lambda>(v, i). v = ys ! i) (zip xs [0..<length xs])"

text \<open>
  \<open>lastSentSymbols.current && normalized.length === lastSentSymbols.current.length &&
  normalized.every(...)\<close>.
\<close>

definition sameAsLast :: "string list \<Rightarrow> string list option \<Rightarrow> bool" where
  "sameAsLast normalized sent =
     (case sent of
        None \<Rightarrow> False
      | Some l \<Rightarrow> if length normalized = length l then every_eq_at normalized l else False)"

text \<open>The tail of \<open>connectWS\<close>: \<open>new WebSocket(url)\<close>, kept in \<open>wsRef\<close>. A new socket is CONNECTING.\<close>

definition open_socket :: "string list \<Rightarrow> hook_state \<Rightarrow> hook_state" where
  "open_socket all st =
     st\<lparr> effects := effects st @ [WsNew (next_id st) all],
         wsRef := Some \<lparr> ws_id = next_id st, readyState = CONNECTING, send_throws = False \<rparr>,
         next_id := Suc (next_id st) \<rparr>"

text \<open>
  \<open>connectWS(symbols)\<close>, called by the debounce timer with \<open>Array.from(visibleSet)\<close>.
  \<open>all\<close> (the symbols and the pinned extras) decides whether anything is subscribed and
  goes into the URL of a new socket; \<open>normalized\<close> and the \<open>replace\<close> message are built
  from \<open>symbols\<close>.
\<close>

definition connectWS :: "string list \<Rightarrow> hook_state \<Rightarrow> hook_state" where
  "connectWS symbols st =
     (let extras = extraSymbols st;
          all = set_from_list (symbols @ extras)
      in if all = [] then
           (case wsRef st of
              Some w \<Rightarrow> st\<lparr> effects := effects st @ [WsClose (ws_id w)], wsRef := None \<rparr>
            | None \<Rightarrow> st)
         else
           let normalized = sort (filter (\<lambda>s. s \<noteq> []) (map toUpperCase symbols))
           in case wsRef st of
                None \<Rightarrow> open_socket all st
              | Some w \<Rightarrow>
                  (case readyState w of
                     OPEN \<Rightarrow>
                       if sameAsLast normalized (lastSentSymbols st) then st
                       else if send_throws w then
                         st\<lparr> effects := effects st @ [WsClose (ws_id w)], wsRef := None \<rparr>
                       else
                         st\<lparr> effects := effects st @ [WsSend (ws_id w) symbols],
                             lastSentSymbols := Some normalized \<rparr>
                   | CONNECTING \<Rightarrow> st\<lparr> effects := effects st @ [WsOnOpen (ws_id w) symbols] \<rparr>
                   | _ \<Rightarrow>
                       open_socket all
                         (st\<lparr> effects := effects st @ [WsClose (ws_id w)], wsRef := None,
                              lastSentSymbols := None \<rparr>)))"

text \<open>
  The target the specification names: the visible symbols and the pinned extras, each
  once. It is the \<open>all\<close> of \<open>connectWS\<close>.
\<close>

definition target :: "hook_state \<Rightarrow> string list" where
  "target st = set_from_list (visibleSet st @ extraSymbols st)"

text \<open>The timer callback of \<open>scheduleVisibleUpdate\<close>.\<close>

definition reconcile :: "hook_state \<Rightarrow> hook_state" where
  "reconcile st = connectWS (visibleSet st) st"

subsection \<open>Incoming frames: \<open>ws.onmessage\<close>\<close>

text \<open>
  The cache \<open>latest\<close> is a \<open>Map\<close>; its keys are whatever \<open>d.symbol\<close> was, \<open>undefined\<close>
  (\<open>None\<close>) included. (A key that is itself an object is compared by structure here and by
  identity in the browser; no reader of the cache looks such a key up.)

  One entry \<open>d\<close> of a frame: \<open>existing = latest.get(d.symbol) || {}\<close>,
  \<open>merged = {...existing, ...d}\<close>, \<open>latest.set(merged.symbol, merged)\<close>. Reading
  \<open>d.symbol\<close> throws when \<open>d\<close> is \<open>null\<close>.
\<close>

definition merge_entry ::
  "(json option \<Rightarrow> json option) \<Rightarrow> json \<Rightarrow> js_error + (json option \<Rightarrow> json option)" where
  "merge_entry cache d =
     (case get_prop d ''symbol'' of
        Inl e \<Rightarrow> Inl e
      | Inr key \<Rightarrow>
          let existing = (if truthy (cache key) then cache key else Some (JObj []));
              merged = spread existing (Some d)
          in Inr (cache(map_of (rev merged) ''symbol'' := Some (JObj merged))))"

text \<open>
  \<open>for (const d of msg.data) { ... }\<close>: the loop stops at the first entry that throws;
  the entries before it are already in the cache.
\<close>

fun merge_batch ::
  "(json option \<Rightarrow> json option) \<Rightarrow> json list \<Rightarrow> (json option \<Rightarrow> json option) \<times> js_error option" where
  "merge_batch cache [] = (cache, None)"
| "merge_batch cache (d # ds) =
     (case merge_entry cache d of
        Inl e \<Rightarrow> (cache, Some e)
      | Inr cache' \<Rightarrow> merge_batch cache' ds)"

text \<open>
  The body of the handler's \<open>try\<close> once the frame is parsed. A frame is recognised as a
  summary when \<open>msg.type === "summary" && msg.data\<close>, as a batch when
  \<open>msg.type === "batch" && Array.isArray(msg.data)\<close>.
\<close>

definition handle_msg ::
  "(json option \<Rightarrow> json option) \<Rightarrow> json \<Rightarrow> (json option \<Rightarrow> json option) \<times> js_error option" where
  "handle_msg cache msg =
     (case get_prop msg ''type'' of
        Inl e \<Rightarrow> (cache, Some e)
      | Inr ty \<Rightarrow>
          (case get_prop msg ''data'' of
             Inl e \<Rightarrow> (cache, Some e)
           | Inr data \<Rightarrow>
               if ty = Some (JStr ''summary'') \<and> truthy data then
                 (case data of
                    None \<Rightarrow> (cache, None)
                  | Some d \<Rightarrow>
                      (case merge_entry cache d of
                         Inl e \<Rightarrow> (cache, Some e)
                       | Inr cache' \<Rightarrow> (cache', None)))
               else
                 (case data of
                    Some (JArr ds) \<Rightarrow>
                      if ty = Some (JStr ''batch'') then merge_batch cache ds else (cache, None)
                  | _ \<Rightarrow> (cache, None))))"

text \<open>
  \<open>ws.onmessage\<close>: \<open>try { const msg = JSON.parse(ev.data); ... } catch (e) {}\<close>. The
  frame is given by what \<open>JSON.parse\<close> makes of \<open>ev.data\<close>: \<open>None\<close> when it throws its
  SyntaxError. The result is the new state and the exception that leaves the handler, if
  any.
\<close>

definition onmessage :: "json option \<Rightarrow> hook_state \<Rightarrow> hook_state \<times> js_error option" where
  "onmessage frame st =
     catch_all
       (case frame of
          None \<Rightarrow> (st, Some SyntaxError)
        | Some msg \<Rightarrow>
            (st\<lparr> latest := fst (handle_msg (latest st) msg) \<rparr>, snd (handle_msg (latest st) msg)))"

definition getLatest :: "string \<Rightarrow> hook_state \<Rightarrow> json option" where
  "getLatest symbol st = latest st (Some (JStr symbol))"

subsection \<open>The REST fallback: \<open>fetchSnapshot\<close>\<close>

record snapshot_opts =
  force :: bool
  cooldownMs :: "int option"
  klineInterval :: "string option"
  klineLimit :: "int option"

text \<open>The outcome of \<open>await fetch(...)\<close> and \<open>await res.json()\<close>: the fetch rejects, or
  there is a response with its \<open>ok\<close> flag and its body (\<open>None\<close> when the body is not JSON).\<close>

datatype fetch_response = FetchRejected | FetchResponse bool "json option"

text \<open>\<open>lastSnapshotFetch.current.get(s.toUpperCase()) || 0\<close>.\<close>

definition last_fetch :: "hook_state \<Rightarrow> string \<Rightarrow> int" where
  "last_fetch st s = (case lastSnapshotFetch st (toUpperCase s) of Some t \<Rightarrow> t | None \<Rightarrow> 0)"

text \<open>\<open>opts?.cooldownMs ?? 5000\<close> and \<open>opts?.force\<close>.\<close>

definition cooldown_of :: "snapshot_opts option \<Rightarrow> int" where
  "cooldown_of opts =
     (case opts of
        None \<Rightarrow> 5000
      | Some opt \<Rightarrow> (case cooldownMs opt of None \<Rightarrow> 5000 | Some c \<Rightarrow> c))"

definition is_forced :: "snapshot_opts option \<Rightarrow> bool" where
  "is_forced opts = (case opts of None \<Rightarrow> False | Some opt \<Rightarrow> force opt)"

text \<open>
  \<open>fetchSnapshot\<close> up to its \<open>await fetch(...)\<close>, at time \<open>now\<close> (\<open>Date.now()\<close>).
  \<open>symbols = None\<close> is a missing array. The result is the state and the request sent, if
  one was.
\<close>

definition fetchSnapshot_begin ::
  "string list option \<Rightarrow> snapshot_opts option \<Rightarrow> int \<Rightarrow> hook_state
     \<Rightarrow> hook_state \<times> summaries_request option" where
  "fetchSnapshot_begin symbols opts now st =
     (case symbols of
        None \<Rightarrow> (st, None)
      | Some [] \<Rightarrow> (st, None)
      | Some syms \<Rightarrow>
          let cooldown = cooldown_of opts;
              extras = extraSymbols st;
              requested = set_from_list (syms @ extras);
              toFetch = filter (\<lambda>s. is_forced opts \<or> now - last_fetch st s > cooldown) requested
          in if toFetch = [] then (st, None)
             else
               let req = \<lparr> req_symbols = toFetch,
                           include_klines = (extras \<noteq> [] \<or> is_forced opts),
                           kline_interval =
                             (case opts of
                                None \<Rightarrow> ''1m''
                              | Some opt \<Rightarrow> (case klineInterval opt of None \<Rightarrow> ''1m'' | Some i \<Rightarrow> i)),
                           kline_limit =
                             (case opts of
                                None \<Rightarrow> 48
                              | Some opt \<Rightarrow> (case klineLimit opt of None \<Rightarrow> 48 | Some l \<Rightarrow> l)) \<rparr>
               in (st\<lparr> effects := effects st @ [Fetch req] \<rparr>, Some req))"

text \<open>
  The loop over \<open>json.summaries\<close>: \<open>latest.set(s.symbol, s)\<close>, then
  \<open>lastSnapshotFetch.set(s.symbol.toUpperCase(), Date.now())\<close>. The first throws on a
  \<open>null\<close> entry, the second when \<open>s.symbol\<close> is not a string. (The loop runs within one
  millisecond tick: \<open>now\<close> stands for each of its \<open>Date.now()\<close>.)
\<close>

fun store_summaries :: "int \<Rightarrow> json list \<Rightarrow> hook_state \<Rightarrow> hook_state \<times> js_error option" where
  "store_summaries now [] st = (st, None)"
| "store_summaries now (s # ss) st =
     (case get_prop s ''symbol'' of
        Inl e \<Rightarrow> (st, Some e)
      | Inr key \<Rightarrow>
          let st1 = st\<lparr> latest := (latest st)(key := Some s) \<rparr>
          in (case key of
                Some (JStr name) \<Rightarrow>
                  store_summaries now ss
                    (st1\<lparr> lastSnapshotFetch := (lastSnapshotFetch st1)(toUpperCase name := Some now) \<rparr>)
              | _ \<Rightarrow> (st1, Some TypeError)))"

text \<open>\<open>fetchSnapshot\<close> from the response on, at time \<open>now\<close>; all of it is inside the \<open>try\<close>.\<close>

definition fetchSnapshot_resume :: "fetch_response \<Rightarrow> int \<Rightarrow> hook_state \<Rightarrow> hook_state \<times> js_error option" where
  "fetchSnapshot_resume resp now st =
     catch_all
       (case resp of
          FetchRejected \<Rightarrow> (st, Some NetworkError)
        | FetchResponse ok body \<Rightarrow>
            if \<not> ok then (st, None)
            else
              (case body of
                 None \<Rightarrow> (st, Some SyntaxError)
               | Some js \<Rightarrow>
                   (case get_prop js ''summaries'' of
                      Inl e \<Rightarrow> (st, Some e)
                    | Inr (Some (JArr ss)) \<Rightarrow>
                        (case store_summaries now ss st of
                           (st', None) \<Rightarrow> (st'\<lparr> tick := Suc (tick st') \<rparr>, None)
                         | (st', Some e) \<Rightarrow> (st', Some e))
                    | Inr other \<Rightarrow> (st, None))))"

text \<open>
  A call that is awaited: it starts at \<open>now\<close>, and when it sent a request the response
  \<open>resp\<close> is handled at \<open>now'\<close>. The result also tells which request was sent.
\<close>

definition fetchSnapshot ::
  "string list option \<Rightarrow> snapshot_opts option \<Rightarrow> int \<Rightarrow> fetch_response \<Rightarrow> int \<Rightarrow> hook_state
     \<Rightarrow> hook_state \<times> summaries_request option" where
  "fetchSnapshot symbols opts now resp now' st =
     (case fetchSnapshot_begin symbols opts now st of
        (st1, None) \<Rightarrow> (st1, None)
      | (st1, Some req) \<Rightarrow> (fst (fetchSnapshot_resume resp now' st1), Some req))"

section \<open>The older hook: \<open>useVisibleSummaries\<close> (apps/web/hooks)\<close>

text \<open>
  Its \<open>ws.onmessage\<close> stores the entry as it came: \<open>latest.set(d.symbol, d)\<close>.
\<close>

definition store_entry ::
  "(json option \<Rightarrow> json option) \<Rightarrow> json \<Rightarrow> js_error + (json option \<Rightarrow> json option)" where
  "store_entry cache d =
     (case get_prop d ''symbol'' of
        Inl e \<Rightarrow> Inl e
      | Inr key \<Rightarrow> Inr (cache(key := Some d)))"

fun store_batch ::
  "(json option \<Rightarrow> json option) \<Rightarrow> json list \<Rightarrow> (json option \<Rightarrow> json option) \<times> js_error option" where
  "store_batch cache [] = (cache, None)"
| "store_batch cache (d # ds) =
     (case store_entry cache d of
        Inl e \<Rightarrow> (cache, Some e)
      | Inr cache' \<Rightarrow> store_batch cache' ds)"

definition old_handle_msg ::
  "(json option \<Rightarrow> json option) \<Rightarrow> json \<Rightarrow> (json option \<Rightarrow> json option) \<times> js_error option" where
  "old_handle_msg cache msg =
     (case get_prop msg ''type'' of
        Inl e \<Rightarrow> (cache, Some e)
      | Inr ty \<Rightarrow>
          (case get_prop msg ''data'' of
             Inl e \<Rightarrow> (cache, Some e)
           | Inr data \<Rightarrow>
               if ty = Some (JStr ''summary'') \<and> truthy data then
                 (case data of
                    None \<Rightarrow> (cache, None)
                  | Some d \<Rightarrow>
                      (case store_entry cache d of
                         Inl e \<Rightarrow> (cache, Some e)
                       | Inr cache' \<Rightarrow> (cache', None)))
               else
                 (case data of
                    Some (JArr ds) \<Rightarrow>
                      if ty = Some (JStr ''batch'') then store_batch cache ds else (cache, None)
                  | _ \<Rightarrow> (cache, None))))"

definition old_onmessage :: "json option \<Rightarrow> hook_state \<Rightarrow> hook_state \<times> js_error option" where
  "old_onmessage frame st =
     catch_all
       (case frame of
          None \<Rightarrow> (st, Some SyntaxError)
        | Some msg \<Rightarrow>
            (st\<lparr> latest := fst (old_handle_msg (latest st) msg) \<rparr>,
             snd (old_handle_msg (latest st) msg)))"

text \<open>
  A response lists a symbol (in upper case, \<open>u\<close>) when the loop of \<open>fetchSnapshot\<close>
  reaches an entry for it before it reaches an entry that makes it throw.
\<close>

fun lists_symbol :: "string \<Rightarrow> json list \<Rightarrow> bool" where
  "lists_symbol u [] = False"
| "lists_symbol u (s # ss) =
     (case get_prop s ''symbol'' of
        Inr (Some (JStr name)) \<Rightarrow> toUpperCase name = u \<or> lists_symbol u ss
      | _ \<Rightarrow> False)"

section \<open>The web session: \<open>AuthProvider\<close>\<close>

subsection \<open>The proactive refresh timer\<close>

text \<open>\<open>token.split('.')\<close>.\<close>

fun split_on :: "char \<Rightarrow> string \<Rightarrow> string list" where
  "split_on c [] = [[]]"
| "split_on c (x # xs) =
     (if x = c then [] # split_on c xs
      else (case split_on c xs of
              p # ps \<Rightarrow> (x # p) # ps
            | [] \<Rightarrow> [[x]]))"

text \<open>\<open>.replace(/-/g, '+').replace(/_/g, '/')\<close>: base64url to base64.\<close>

definition to_base64 :: "string \<Rightarrow> string" where
  "to_base64 s =
     map (\<lambda>c. if c = CHR ''-'' then CHR ''+'' else if c = CHR ''_'' then CHR ''/'' else c) s"

text \<open>
  \<open>getExpiryFromToken(token)\<close>. \<open>decode\<close> is \<open>JSON.parse(atob(...))\<close>, the browser's,
  with \<open>None\<close> when either throws (the \<open>catch\<close> returns \<open>null\<close>). The \<open>exp\<close> claim of
  a JWT is a number of seconds; the result is in milliseconds. (An \<open>exp\<close> that is truthy
  and not a number would be coerced by the multiplication in the browser; such a token is
  read here as one without the claim.)
\<close>

definition getExpiryFromToken :: "(string \<Rightarrow> json option) \<Rightarrow> string option \<Rightarrow> int option" where
  "getExpiryFromToken decode token =
     (case token of
        None \<Rightarrow> None
      | Some t \<Rightarrow>
          if t = [] then None
          else
            let parts = split_on CHR ''.'' t
            in if length parts < 2 then None
               else
                 (case decode (to_base64 (parts ! 1)) of
                    None \<Rightarrow> None
                  | Some payload \<Rightarrow>
                      if \<not> truthy (Some payload) then None
                      else
                        (case get_prop payload ''exp'' of
                           Inr (Some (JNum n)) \<Rightarrow> if n = 0 then None else Some (n * 1000)
                         | _ \<Rightarrow> None)))"

text \<open>
  \<open>scheduleNext()\<close>: the delay, in milliseconds, of the timer it sets for
  \<open>doRefreshAndReschedule\<close>. \<open>auth_token\<close> is \<open>authData?.access_token\<close>, \<open>stored_token\<close>
  is \<open>localStorage.getItem('access_token')\<close>, \<open>now\<close> is \<open>Date.now()\<close>.
\<close>

definition scheduleNext ::
  "(string \<Rightarrow> json option) \<Rightarrow> string option \<Rightarrow> string option \<Rightarrow> int \<Rightarrow> int" where
  "scheduleNext decode auth_token stored_token now =
     (let access = (if auth_token \<noteq> None \<and> auth_token \<noteq> Some [] then auth_token
                    else if stored_token \<noteq> None \<and> stored_token \<noteq> Some [] then stored_token
                    else None)
      in case getExpiryFromToken decode access of
           Some expMs \<Rightarrow>
             if expMs \<noteq> 0 then
               let refreshAt = max 0 (expMs - now - 25 * 1000)
               in if refreshAt \<le> 0 then 50 else refreshAt
             else 10 * 60 * 1000
         | None \<Rightarrow> 10 * 60 * 1000)"

text \<open>
  The effect that holds the refresh loop (\<open>useEffect(..., [authData, initialized])\<close>).
  When the browser has \<open>BroadcastChannel\<close> the effect installs the listener for the other
  tabs and returns its cleanup (\<open>return () => bc.close()\<close>): the lines below that
  statement do not run. Otherwise it returns when the provider is not initialised, and
  else calls \<open>scheduleNext()\<close>.
\<close>

datatype refresh_loop = Listening | NotInitialized | TimerSet int

definition refresh_effect ::
  "bool \<Rightarrow> bool \<Rightarrow> (string \<Rightarrow> json option) \<Rightarrow> string option \<Rightarrow> string option \<Rightarrow> int
     \<Rightarrow> refresh_loop" where
  "refresh_effect has_BroadcastChannel initialized decode auth_token stored_token now =
     (if has_BroadcastChannel then Listening
      else if \<not> initialized then NotInitialized
      else TimerSet (scheduleNext decode auth_token stored_token now))"

section \<open>The mobile session: \<open>AuthContext\<close> and \<open>mobileApi\<close>\<close>

text \<open>
  What the server answers to one request: the fetch rejects, or there is a status and a
  body (\<open>None\<close> for a body that is empty or not JSON).
\<close>

datatype http_response = NetFail | Http nat "json option"

datatype api_error = FetchFailed | HttpError nat | NoRefreshToken | JsTypeError | BodyNotJson

fun res_ok :: "http_response \<Rightarrow> bool" where
  "res_ok NetFail = False"
| "res_ok (Http status body) = (200 \<le> status \<and> status \<le> 299)"

text \<open>The two items of secure storage; \<open>None\<close> is an item that is not there.\<close>

record token_store =
  access_item :: "json option"
  refresh_item :: "json option"

definition clearTokens :: "token_store \<Rightarrow> token_store" where
  "clearTokens ts = \<lparr> access_item = None, refresh_item = None \<rparr>"

text \<open>\<open>postJSON\<close>: the parsed body of an ok response; it throws on any other.\<close>

fun postJSON :: "http_response \<Rightarrow> api_error + json option" where
  "postJSON NetFail = Inl FetchFailed"
| "postJSON (Http status body) =
     (if 200 \<le> status \<and> status \<le> 299 then Inr body else Inl (HttpError status))"

text \<open>\<open>a || b\<close>.\<close>

definition js_or :: "json option \<Rightarrow> json option \<Rightarrow> json option" where
  "js_or a b = (if truthy a then a else b)"

text \<open>
  \<open>mobileApi.refresh()\<close>, given the answer \<open>resp\<close> to \<open>POST /auth/refresh_mobile\<close>: it
  throws, or it saves the rotated tokens and returns the new access token.
\<close>

definition refresh :: "http_response \<Rightarrow> token_store \<Rightarrow> api_error + (json option \<times> token_store)" where
  "refresh resp ts =
     (if \<not> truthy (refresh_item ts) then Inl NoRefreshToken
      else
        (case postJSON resp of
           Inl e \<Rightarrow> Inl e
         | Inr None \<Rightarrow> Inl JsTypeError
         | Inr (Some js) \<Rightarrow>
             (case (get_prop js ''access_token'', get_prop js ''accessToken'',
                    get_prop js ''refresh_token'') of
                (Inr a, Inr a', Inr r) \<Rightarrow>
                  let accessToken = js_or a a';
                      ts1 = (if truthy accessToken then ts\<lparr> access_item := accessToken \<rparr> else ts);
                      ts2 = (if truthy r then ts1\<lparr> refresh_item := r \<rparr> else ts1)
                  in Inr (accessToken, ts2)
              | _ \<Rightarrow> Inl JsTypeError)))"

text \<open>
  \<open>fetchWithAuth\<close>: the request, and on a 401 one \<open>refresh()\<close> and one retry. \<open>r1\<close>
  answers the request, \<open>r2\<close> the refresh, \<open>r3\<close> the retry. When that refresh throws, the
  tokens are cleared and the error is thrown on.
\<close>

definition fetchWithAuth ::
  "http_response \<Rightarrow> http_response \<Rightarrow> http_response \<Rightarrow> token_store
     \<Rightarrow> (api_error + http_response) \<times> token_store" where
  "fetchWithAuth r1 r2 r3 ts =
     (case r1 of
        NetFail \<Rightarrow> (Inl FetchFailed, ts)
      | Http status body \<Rightarrow>
          if status = 401 then
            (case refresh r2 ts of
               Inl e \<Rightarrow> (Inl e, clearTokens ts)
             | Inr (tok, ts') \<Rightarrow>
                 (case r3 of
                    NetFail \<Rightarrow> (Inl FetchFailed, ts')
                  | Http status' body' \<Rightarrow> (Inr r3, ts')))
          else (Inr r1, ts))"

text \<open>
  \<open>refreshUser()\<close>: \<open>GET /user/me\<close> through \<open>fetchWithAuth\<close>; the user becomes the body
  of an ok response and \<open>null\<close> (\<open>None\<close>) in every other case. It never throws.
\<close>

definition refreshUser ::
  "http_response \<Rightarrow> http_response \<Rightarrow> http_response \<Rightarrow> token_store
     \<Rightarrow> json option \<times> token_store" where
  "refreshUser r1 r2 r3 ts =
     (case fetchWithAuth r1 r2 r3 ts of
        (Inl e, ts') \<Rightarrow> (None, ts')
      | (Inr res, ts') \<Rightarrow>
          if res_ok res then
            (case res of
               Http status (Some JNull) \<Rightarrow> (None, ts')
             | Http status (Some js) \<Rightarrow> (Some js, ts')
             | _ \<Rightarrow> (None, ts'))
          else (None, ts'))"

record mobile_state =
  user :: "json option"
  tokens :: token_store
  refreshTimer :: "nat option"
  consecutiveFailures :: nat
  lastRefreshAt :: "int option"
  lastRefreshError :: "api_error option"

definition stopAutoRefresh :: "mobile_state \<Rightarrow> mobile_state" where
  "stopAutoRefresh st = st\<lparr> refreshTimer := None, consecutiveFailures := 0 \<rparr>"

text \<open>
  \<open>startAutoRefresh()\<close>: the interval (every four minutes, handle \<open>h\<close>) is set only when
  a refresh token is stored.
\<close>

definition startAutoRefresh :: "nat \<Rightarrow> mobile_state \<Rightarrow> mobile_state" where
  "startAutoRefresh h st =
     (let st0 = stopAutoRefresh st
      in if truthy (refresh_item (tokens st0)) then st0\<lparr> refreshTimer := Some h \<rparr> else st0)"

text \<open>
  One run of the interval callback, at time \<open>now\<close>. \<open>r0\<close> answers the refresh; \<open>r1\<close>,
  \<open>r2\<close>, \<open>r3\<close> are for the \<open>refreshUser()\<close> that follows a refresh that did not throw.
\<close>

definition auto_refresh_tick ::
  "int \<Rightarrow> http_response \<Rightarrow> http_response \<Rightarrow> http_response \<Rightarrow> http_response
     \<Rightarrow> mobile_state \<Rightarrow> mobile_state" where
  "auto_refresh_tick now r0 r1 r2 r3 st =
     (case refresh r0 (tokens st) of
        Inr (tok, ts) \<Rightarrow>
          (case refreshUser r1 r2 r3 ts of
             (u, ts') \<Rightarrow>
               st\<lparr> tokens := ts', user := u, consecutiveFailures := 0,
                   lastRefreshAt := Some now, lastRefreshError := None \<rparr>)
      | Inl e \<Rightarrow>
          let st1 = st\<lparr> lastRefreshError := Some e,
                        consecutiveFailures := consecutiveFailures st + 1 \<rparr>
          in if consecutiveFailures st1 \<ge> 3 then
               stopAutoRefresh (st1\<lparr> tokens := clearTokens (tokens st1), user := None \<rparr>)
             else st1)"

section \<open>The web session: the axios interceptors\<close>

subsection \<open>Strings of values\<close>

text \<open>
  \<open>String(v)\<close>, as a template literal and \<open>localStorage.setItem\<close> apply it: a string is
  itself, \<open>undefined\<close> and \<open>null\<close> are their names, an array is its elements joined by
  commas (\<open>null\<close> elements empty), an object is \<open>[object Object]\<close>.
\<close>

definition number_to_string :: "int \<Rightarrow> string" where
  "number_to_string i = (if 0 \<le> i then decimal (nat i) else CHR ''-'' # decimal (nat (- i)))"

fun join_comma :: "string list \<Rightarrow> string" where
  "join_comma [] = []"
| "join_comma [x] = x"
| "join_comma (x # y # ys) = x @ '','' @ join_comma (y # ys)"

fun json_to_string :: "json \<Rightarrow> string" where
  "json_to_string JNull = ''null''"
| "json_to_string (JBool b) = (if b then ''true'' else ''false'')"
| "json_to_string (JNum n) = number_to_string n"
| "json_to_string (JStr s) = s"
| "json_to_string (JArr xs) =
     join_comma (map (\<lambda>x. if x = JNull then [] else json_to_string x) xs)"
| "json_to_string (JObj kvs) = ''[object Object]''"

definition js_to_string :: "json option \<Rightarrow> string" where
  "js_to_string v = (case v of None \<Rightarrow> ''undefined'' | Some j \<Rightarrow> json_to_string j)"

subsection \<open>Requests, errors and the state of a tab\<close>

text \<open>
  An axios request config: \<open>retry_mark\<close> is its \<open>_retry\<close>, \<open>authorization\<close> its
  \<open>headers.Authorization\<close>.
\<close>

record request_config =
  url :: string
  retry_mark :: bool
  authorization :: "string option"

text \<open>
  The error the response interceptor gets: \<open>error.config\<close> and, when there was a
  response, \<open>error.response.status\<close>.
\<close>

record axios_error =
  err_config :: "request_config option"
  err_status :: "nat option"

text \<open>
  What a promise rejects with: the request's own error, the \<open>Error("refresh failed
  <status>")\<close> of \<open>doRefresh\<close>, or something thrown on the way.
\<close>

datatype failure = RequestFailed axios_error | RefreshStatus nat | Thrown js_error

datatype settled = Fulfilled json | Rejected failure

text \<open>
  One call of \<open>doRefresh()\<close>, which is also the promise it returned: waiting in its
  polling loop since \<open>start\<close>, waiting for the answer to its POST, or settled.
\<close>

datatype task = Polling int | Fetching | Settled settled

text \<open>
  A \<open>localStorage\<close> item that is read with \<open>JSON.parse\<close>. (The code reads an item
  that is the empty string as an item that is not there.)
\<close>

datatype stored_json = Unparseable | Parsed json

text \<open>
  Who sends a \<open>POST /auth/refresh\<close>: call \<open>p\<close> of \<open>doRefresh\<close>, the provider's
  \<open>doRefreshAndReschedule\<close>, the provider's load effect.
\<close>

datatype issuer = ByInterceptor nat | ByProvider | ByLoad

datatype bc_message = TokensMsg "json option" "json option" | LogoutMsg

text \<open>
  What leaves the tab: a \<open>POST /auth/refresh\<close> (and who sent it), a message on the
  \<open>auth\<close> channel, a navigation.
\<close>

datatype web_effect = PostRefresh issuer | Broadcast bc_message | Navigate string

text \<open>
  The module variables of axios.ts (\<open>isRefreshing\<close>, \<open>refreshPromise\<close>), the calls of
  \<open>doRefresh\<close> so far (\<open>refreshPromise = Some p\<close> is the promise of call \<open>p\<close>), the three
  \<open>localStorage\<close> items, and the clock \<open>Date.now()\<close>.
\<close>

record web_state =
  isRefreshing :: bool
  refreshPromise :: "nat option"
  tasks :: "task list"
  refresh_in_progress :: bool
  cryptics_auth :: "stored_json option"
  access_token :: "string option"
  has_BroadcastChannel :: bool
  clock :: int
  sent :: "web_effect list"

definition web_init :: web_state where
  "web_init =
     \<lparr> isRefreshing = False, refreshPromise = None, tasks = [], refresh_in_progress = False,
       cryptics_auth = None, access_token = None, has_BroadcastChannel = True, clock = 0,
       sent = [] \<rparr>"

subsection \<open>\<open>doRefresh\<close>\<close>

text \<open>
  \<open>doRefresh()\<close> up to its first \<open>await\<close>: it sets \<open>refresh_in_progress\<close> to \<open>'1'\<close>,
  notes the time, finds the item set and goes to sleep in the loop. The call gets the next
  number.
\<close>

definition doRefresh_begin :: "web_state \<Rightarrow> web_state" where
  "doRefresh_begin s = s\<lparr> refresh_in_progress := True, tasks := tasks s @ [Polling (clock s)] \<rparr>"

text \<open>
  The token \<open>doRefresh\<close> takes from \<open>cryptics_auth\<close> when it finds the flag gone:
  \<open>parsed && parsed.access_token\<close>.
\<close>

definition reuse_local :: "stored_json option \<Rightarrow> json option" where
  "reuse_local item =
     (case item of
        Some (Parsed parsed) \<Rightarrow>
          if truthy (Some parsed) then
            (case get_prop parsed ''access_token'' of
               Inr tok \<Rightarrow> if truthy tok then tok else None
             | Inl e \<Rightarrow> None)
          else None
      | _ \<Rightarrow> None)"

text \<open>
  The sleep of call \<open>p\<close> ends. While the flag is set and fewer than 5000 ms have passed
  it sleeps again. Else, when the flag is gone and \<open>cryptics_auth\<close> holds a token, the
  call resolves with that token; otherwise it sends the POST.
\<close>

definition doRefresh_wake :: "nat \<Rightarrow> web_state \<Rightarrow> web_state" where
  "doRefresh_wake p s =
     (if p < length (tasks s) then
        (case tasks s ! p of
           Polling start \<Rightarrow>
             if refresh_in_progress s \<and> clock s - start < 5000 then s
             else if \<not> refresh_in_progress s \<and> reuse_local (cryptics_auth s) \<noteq> None then
               s\<lparr> tasks := (tasks s)[p := Settled (Fulfilled
                      (JObj (case reuse_local (cryptics_auth s) of
                               Some tok \<Rightarrow> [(''access_token'', tok)]
                             | None \<Rightarrow> [])))] \<rparr>
             else
               s\<lparr> tasks := (tasks s)[p := Fetching],
                   sent := sent s @ [PostRefresh (ByInterceptor p)] \<rparr>
         | _ \<Rightarrow> s)
      else s)"

text \<open>
  The POST of call \<open>p\<close> is answered. A fetch that rejects rejects the call and leaves the
  flag; in every other case the flag is removed, and the call resolves with the body of an
  ok response.
\<close>

definition doRefresh_respond :: "nat \<Rightarrow> http_response \<Rightarrow> web_state \<Rightarrow> web_state" where
  "doRefresh_respond p resp s =
     (if p < length (tasks s) \<and> tasks s ! p = Fetching then
        (case resp of
           NetFail \<Rightarrow> s\<lparr> tasks := (tasks s)[p := Settled (Rejected (Thrown NetworkError))] \<rparr>
         | Http status body \<Rightarrow>
             if \<not> (200 \<le> status \<and> status \<le> 299) then
               s\<lparr> tasks := (tasks s)[p := Settled (Rejected (RefreshStatus status))],
                   refresh_in_progress := False \<rparr>
             else
               (case body of
                  None \<Rightarrow>
                    s\<lparr> tasks := (tasks s)[p := Settled (Rejected (Thrown SyntaxError))],
                        refresh_in_progress := False \<rparr>
                | Some js \<Rightarrow>
                    s\<lparr> tasks := (tasks s)[p := Settled (Fulfilled js)],
                        refresh_in_progress := False \<rparr>))
      else s)"

text \<open>What the promise of call \<open>p\<close> has settled with, if it has.\<close>

definition settled_with :: "web_state \<Rightarrow> nat \<Rightarrow> settled option" where
  "settled_with w p =
     (if p < length (tasks w) then
        (case tasks w ! p of Settled a \<Rightarrow> Some a | _ \<Rightarrow> None)
      else None)"


subsection \<open>The request interceptor\<close>


subsection \<open>The response interceptor\<close>

text \<open>
  The \<open>catch\<close> of the handler: both items removed, \<open>logout\<close> broadcast, the page sent to
  \<open>/login\<close>.
\<close>

definition logout_cleanup :: "web_state \<Rightarrow> web_state" where
  "logout_cleanup s =
     s\<lparr> cryptics_auth := None, access_token := None,
         sent := sent s @ (if has_BroadcastChannel s then [Broadcast LogoutMsg] else [])
                  @ [Navigate ''/login''] \<rparr>"

text \<open>
  What the handler returns: a rejected promise, or \<open>api(original)\<close>, the request sent
  again.
\<close>

datatype outcome = Reject failure | Retry request_config

text \<open>
  The handler up to \<open>await refreshPromise\<close>: it rejects at once, or it waits for the
  promise in \<open>refreshPromise\<close> (\<open>None\<close>: the variable holds \<open>null\<close>) with the config it
  has marked.
\<close>

datatype suspended = RejectNow failure | AwaitRefresh request_config "nat option"

definition response_error_begin :: "axios_error \<Rightarrow> web_state \<Rightarrow> web_state \<times> suspended" where
  "response_error_begin err s =
     (case err_config err of
        None \<Rightarrow> (s, RejectNow (RequestFailed err))
      | Some original \<Rightarrow>
          if retry_mark original then (s, RejectNow (RequestFailed err))
          else if err_status err = Some 401 then
            let marked = original\<lparr> retry_mark := True \<rparr>
            in if \<not> isRefreshing s then
                 (case cryptics_auth s of
                    Some Unparseable \<Rightarrow>
                      (logout_cleanup (s\<lparr> isRefreshing := True \<rparr>), RejectNow (Thrown SyntaxError))
                  | _ \<Rightarrow>
                      (doRefresh_begin (s\<lparr> isRefreshing := True \<rparr>)
                         \<lparr> refreshPromise := Some (length (tasks s)) \<rparr>,
                       AwaitRefresh marked (Some (length (tasks s)))))
               else (s, AwaitRefresh marked (refreshPromise s))
          else (s, RejectNow (RequestFailed err)))"

text \<open>
  The inner \<open>try\<close> after the refresh: the user of the stored \<open>cryptics_auth\<close> and the
  new token are stored and broadcast. \<open>JSON.stringify\<close> leaves out a property that is
  \<open>undefined\<close>. Whatever throws in it is ignored, and then nothing was stored.
\<close>

definition defined_props :: "(string \<times> json option) list \<Rightarrow> (string \<times> json) list" where
  "defined_props kvs = concat (map (\<lambda>(k, v). case v of None \<Rightarrow> [] | Some j \<Rightarrow> [(k, j)]) kvs)"

definition persist_tokens :: "json \<Rightarrow> web_state \<Rightarrow> web_state" where
  "persist_tokens res s =
     (case (case cryptics_auth s of
              None \<Rightarrow> Inr (Some JNull)
            | Some Unparseable \<Rightarrow> Inl SyntaxError
            | Some (Parsed stored) \<Rightarrow> get_prop stored ''user'') of
        Inl e \<Rightarrow> s
      | Inr usr \<Rightarrow>
          (case get_prop res ''access_token'' of
             Inl e \<Rightarrow> s
           | Inr tok \<Rightarrow>
               s\<lparr> cryptics_auth :=
                     Some (Parsed (JObj (defined_props [(''access_token'', tok), (''user'', usr)]))),
                   access_token := Some (js_to_string tok),
                   sent := sent s @ (if has_BroadcastChannel s
                                     then [Broadcast (TokensMsg tok usr)] else []) \<rparr>))"

text \<open>
  The handler from \<open>await refreshPromise\<close> on, for the config \<open>original\<close> it had marked
  and what the promise settled with.
\<close>

definition response_error_resume :: "request_config \<Rightarrow> settled \<Rightarrow> web_state \<Rightarrow> web_state \<times> outcome" where
  "response_error_resume original awaited s =
     (case awaited of
        Rejected e \<Rightarrow> (logout_cleanup s, Reject e)
      | Fulfilled res \<Rightarrow>
          let s1 = persist_tokens res (s\<lparr> isRefreshing := False, refreshPromise := None \<rparr>)
          in (case get_prop res ''access_token'' of
                Inl e \<Rightarrow> (logout_cleanup s1, Reject (Thrown e))
              | Inr tok \<Rightarrow>
                  (s1, Retry (original\<lparr> authorization := Some (''Bearer '' @ js_to_string tok) \<rparr>))))"

subsection \<open>A request through both interceptors\<close>








section \<open>One tab: the refreshes and their interleavings\<close>

text \<open>
  \<open>doRefreshAndReschedule\<close> of the provider: not running, waiting for the answer to its
  POST, or (with the body \<open>res\<close> of that answer) waiting for \<open>GET /user/me\<close>.
\<close>

datatype provider_pc = ProviderIdle | ProviderFetching | ProviderProfile json

text \<open>
  The effect of the provider that runs once when the page has loaded (\<open>load stored
  token\<close>): not run yet; stopped by an exception before \<open>setInitialized(true)\<close>; waiting
  for the answer to its POST (with \<open>parsed\<close>, what it read from \<open>cryptics_auth\<close>);
  waiting for \<open>GET /user/me\<close> (with \<open>parsed.access_token\<close>); done.
\<close>

datatype mount_pc =
    NotMounted
  | MountCrashed
  | MountFetching json
  | MountProfile "json option"
  | Mounted

text \<open>
  A tab: the state of the page, the handlers of the response interceptor that are
  suspended at \<open>await refreshPromise\<close> (caller, marked config, the call of \<open>doRefresh\<close>
  whose promise they await) in the order in which they suspended, the handlers that have
  returned (caller, the call they awaited if any, what they returned), and the two
  activities of the provider.
\<close>

record tab =
  web :: web_state
  waiting :: "(nat \<times> request_config \<times> nat) list"
  finished :: "(nat \<times> nat option \<times> outcome) list"
  provider :: provider_pc
  mount :: mount_pc

text \<open>
  What the event loop can run next: a 401 for a caller's request reaches the response
  interceptor; time passes; the sleep of a \<open>doRefresh\<close> ends; its POST is answered; the
  provider's refresh timer fires; the provider's POST is answered; its \<open>GET /user/me\<close>
  is answered (\<open>None\<close>: it failed); the provider's load effect runs (with what
  \<open>tokenExpMs(parsed.access_token)\<close> makes of the stored token, which is the browser's
  \<open>atob\<close> and \<open>JSON.parse\<close>); the POST of the load effect is answered; its
  \<open>GET /user/me\<close> is answered.
\<close>

datatype event =
    Error401 nat request_config
  | Elapse nat
  | Wake nat
  | Answer nat http_response
  | Timer
  | ProviderAnswer http_response
  | ProfileAnswer "json option"
  | Mount "int option"
  | MountAnswer http_response
  | MountProfileAnswer "json option"

text \<open>
  When a promise settles, the handlers that await it continue one after the other, in the
  order in which they suspended, before anything else runs.
\<close>

fun resume_waiting ::
  "nat \<Rightarrow> settled \<Rightarrow> (nat \<times> request_config \<times> nat) list
     \<Rightarrow> web_state \<times> (nat \<times> nat option \<times> outcome) list
     \<Rightarrow> web_state \<times> (nat \<times> nat option \<times> outcome) list" where
  "resume_waiting p a [] acc = acc"
| "resume_waiting p a ((c, cfg, q) # ws) (w, fin) =
     (if q = p then
        resume_waiting p a ws
          (fst (response_error_resume cfg a w),
           fin @ [(c, Some p, snd (response_error_resume cfg a w))])
      else resume_waiting p a ws (w, fin))"

definition deliver :: "nat \<Rightarrow> tab \<Rightarrow> tab" where
  "deliver p t =
     (case settled_with (web t) p of
        Some a \<Rightarrow>
          t\<lparr> web := fst (resume_waiting p a (waiting t) (web t, finished t)),
              finished := snd (resume_waiting p a (waiting t) (web t, finished t)),
              waiting := filter (\<lambda>(c, cfg, q). q \<noteq> p) (waiting t) \<rparr>
      | None \<Rightarrow> t)"

text \<open>
  A 401 reaches the handler. When the handler has to wait for a promise that is still
  pending it is suspended; a promise that is settled already, and \<open>await null\<close>, let it
  continue at once.
\<close>

definition on_error401 :: "nat \<Rightarrow> request_config \<Rightarrow> tab \<Rightarrow> tab" where
  "on_error401 c cfg t =
     (case response_error_begin \<lparr> err_config = Some cfg, err_status = Some 401 \<rparr> (web t) of
        (w, RejectNow e) \<Rightarrow> t\<lparr> web := w, finished := finished t @ [(c, None, Reject e)] \<rparr>
      | (w, AwaitRefresh marked None) \<Rightarrow>
          t\<lparr> web := fst (response_error_resume marked (Fulfilled JNull) w),
              finished := finished t
                 @ [(c, None, snd (response_error_resume marked (Fulfilled JNull) w))] \<rparr>
      | (w, AwaitRefresh marked (Some p)) \<Rightarrow>
          (case settled_with w p of
             Some a \<Rightarrow>
               t\<lparr> web := fst (response_error_resume marked a w),
                   finished := finished t @ [(c, Some p, snd (response_error_resume marked a w))] \<rparr>
           | None \<Rightarrow> t\<lparr> web := w, waiting := waiting t @ [(c, marked, p)] \<rparr>))"

text \<open>
  The load effect up to its first \<open>await\<close>. Without a stored \<open>cryptics_auth\<close> it only
  marks the provider initialised. \<open>JSON.parse(stored)\<close> and \<open>parsed.access_token\<close> are
  outside every \<open>try\<close>: when one of them throws, the effect ends there. Else the stored
  token is written to \<open>access_token\<close>, and when it has no expiry or expires within 30
  seconds the flag is set and \<open>POST /auth/refresh\<close> is sent, whatever the flag said
  before; a token with more time left goes straight to \<open>GET /user/me\<close>.
\<close>

definition on_mount :: "int option \<Rightarrow> tab \<Rightarrow> tab" where
  "on_mount expMs t =
     (if mount t \<noteq> NotMounted then t
      else
        (case cryptics_auth (web t) of
           None \<Rightarrow> t\<lparr> mount := Mounted \<rparr>
         | Some Unparseable \<Rightarrow> t\<lparr> mount := MountCrashed \<rparr>
         | Some (Parsed parsed) \<Rightarrow>
             (case get_prop parsed ''access_token'' of
                Inl e \<Rightarrow> t\<lparr> mount := MountCrashed \<rparr>
              | Inr tok \<Rightarrow>
                  if (case expMs of None \<Rightarrow> True
                      | Some e \<Rightarrow> e = 0 \<or> e - clock (web t) < 30 * 1000)
                  then
                    t\<lparr> web := (web t)\<lparr> access_token := Some (js_to_string tok),
                                       refresh_in_progress := True,
                                       sent := sent (web t) @ [PostRefresh ByLoad] \<rparr>,
                        mount := MountFetching parsed \<rparr>
                  else
                    t\<lparr> web := (web t)\<lparr> access_token := Some (js_to_string tok) \<rparr>,
                        mount := MountProfile tok \<rparr>)))"

text \<open>
  The answer to the POST of the load effect. Not ok, no JSON, or anything thrown on the
  way (\<open>data.access_token\<close> of \<open>null\<close>; the assignment \<open>parsed.access_token = ...\<close> when
  \<open>parsed\<close> is a number, a string or a boolean: modules are strict code): the flag and
  both items are removed and the effect returns. Else the new token is stored under
  \<open>access_token\<close> and, with \<open>parsed.user || null\<close>, under \<open>cryptics_auth\<close>; only then
  the flag is removed; \<open>GET /user/me\<close> follows.
\<close>

definition on_mount_answer :: "http_response \<Rightarrow> tab \<Rightarrow> tab" where
  "on_mount_answer resp t =
     (case mount t of
        MountFetching parsed \<Rightarrow>
          (let cleared = t\<lparr> web := (web t)\<lparr> refresh_in_progress := False,
                                              cryptics_auth := None, access_token := None \<rparr>,
                               mount := Mounted \<rparr>
           in case resp of
                NetFail \<Rightarrow> cleared
              | Http status body \<Rightarrow>
                  if \<not> (200 \<le> status \<and> status \<le> 299) then cleared
                  else
                    (case body of
                       None \<Rightarrow> cleared
                     | Some data \<Rightarrow>
                         (case get_prop data ''access_token'' of
                            Inl e \<Rightarrow> cleared
                          | Inr tok \<Rightarrow>
                              (case (case parsed of
                                       JObj kvs \<Rightarrow> Some (map_of (rev kvs) ''user'')
                                     | JArr xs \<Rightarrow> Some None
                                     | _ \<Rightarrow> None) of
                                 None \<Rightarrow> cleared
                               | Some usr \<Rightarrow>
                                   t\<lparr> web := (web t)
                                         \<lparr> access_token := Some (js_to_string tok),
                                           cryptics_auth :=
                                             Some (Parsed (JObj (defined_props
                                               [(''access_token'', tok),
                                                (''user'', js_or usr (Some JNull))]))),
                                           refresh_in_progress := False \<rparr>,
                                       mount := MountProfile tok \<rparr>))))
      | _ \<Rightarrow> t)"

text \<open>
  The answer to the \<open>GET /user/me\<close> of the load effect: \<open>setAuthData\<close> stores the token
  and the user; a failure removes both items.
\<close>

definition on_mount_profile :: "json option \<Rightarrow> tab \<Rightarrow> tab" where
  "on_mount_profile r t =
     (case mount t of
        MountProfile tok \<Rightarrow>
          (case r of
             None \<Rightarrow>
               t\<lparr> web := (web t)\<lparr> cryptics_auth := None, access_token := None \<rparr>,
                   mount := Mounted \<rparr>
           | Some usr \<Rightarrow>
               t\<lparr> web := (web t)
                     \<lparr> cryptics_auth :=
                         Some (Parsed (JObj (defined_props
                           [(''access_token'', tok), (''user'', js_or (Some usr) (Some JNull))]))),
                       access_token := Some (js_to_string tok) \<rparr>,
                   mount := Mounted \<rparr>)
      | _ \<Rightarrow> t)"

text \<open>\<open>initialized\<close>: the load effect has reached \<open>setInitialized(true)\<close>.\<close>

definition initialized :: "tab \<Rightarrow> bool" where
  "initialized t = (mount t \<noteq> NotMounted \<and> mount t \<noteq> MountCrashed)"

text \<open>
  \<open>doRefreshAndReschedule\<close> up to its \<open>await fetch(...)\<close>: the flag is set and the POST
  is sent, whatever \<open>isRefreshing\<close> and the flag say. The timer exists only where the
  refresh effect of the provider reached \<open>scheduleNext\<close>: in a browser without
  \<open>BroadcastChannel\<close>, once the provider is initialised.
\<close>

definition on_timer :: "tab \<Rightarrow> tab" where
  "on_timer t =
     (if has_BroadcastChannel (web t) \<or> \<not> initialized t \<or> provider t \<noteq> ProviderIdle then t
      else t\<lparr> web := (web t)\<lparr> refresh_in_progress := True,
                              sent := sent (web t) @ [PostRefresh ByProvider] \<rparr>,
               provider := ProviderFetching \<rparr>)"

text \<open>
  The answer to the provider's POST. Not ok, or no JSON: \<open>logout()\<close>, and the flag stays.
  Else the flag is removed and the new token stored under \<open>access_token\<close>; then the
  provider asks for \<open>/user/me\<close>. (\<open>logout()\<close> first awaits \<open>POST /auth/logout\<close>; what it
  does after that is what the handler's \<open>catch\<close> does.)
\<close>

definition on_provider_answer :: "http_response \<Rightarrow> tab \<Rightarrow> tab" where
  "on_provider_answer resp t =
     (if provider t \<noteq> ProviderFetching then t
      else
        (case resp of
           NetFail \<Rightarrow> t\<lparr> web := logout_cleanup (web t), provider := ProviderIdle \<rparr>
         | Http status body \<Rightarrow>
             if \<not> (200 \<le> status \<and> status \<le> 299) then
               t\<lparr> web := logout_cleanup (web t), provider := ProviderIdle \<rparr>
             else
               (case body of
                  None \<Rightarrow> t\<lparr> web := logout_cleanup (web t), provider := ProviderIdle \<rparr>
                | Some res \<Rightarrow>
                    (case get_prop res ''access_token'' of
                       Inl e \<Rightarrow>
                         t\<lparr> web := logout_cleanup ((web t)\<lparr> refresh_in_progress := False \<rparr>),
                             provider := ProviderIdle \<rparr>
                     | Inr tok \<Rightarrow>
                         t\<lparr> web := (web t)\<lparr> refresh_in_progress := False,
                                            access_token := Some (js_to_string tok) \<rparr>,
                             provider := ProviderProfile res \<rparr>))))"

text \<open>
  The answer to the provider's \<open>GET /user/me\<close>: \<open>setAuthData\<close> stores the token and the
  user under \<open>cryptics_auth\<close>; a failure is a \<open>logout()\<close>.
\<close>

definition on_profile_answer :: "json option \<Rightarrow> tab \<Rightarrow> tab" where
  "on_profile_answer r t =
     (case provider t of
        ProviderProfile res \<Rightarrow>
          (case r of
             None \<Rightarrow> t\<lparr> web := logout_cleanup (web t), provider := ProviderIdle \<rparr>
           | Some usr \<Rightarrow>
               (case get_prop res ''access_token'' of
                  Inl e \<Rightarrow> t\<lparr> web := logout_cleanup (web t), provider := ProviderIdle \<rparr>
                | Inr tok \<Rightarrow>
                    t\<lparr> web := (web t)
                          \<lparr> cryptics_auth :=
                              Some (Parsed (JObj (defined_props
                                [(''access_token'', tok), (''user'', js_or (Some usr) (Some JNull))]))),
                            access_token := Some (js_to_string tok) \<rparr>,
                        provider := ProviderIdle \<rparr>))
      | _ \<Rightarrow> t)"

fun step :: "event \<Rightarrow> tab \<Rightarrow> tab" where
  "step (Error401 c cfg) t = on_error401 c cfg t"
| "step (Elapse d) t = t\<lparr> web := (web t)\<lparr> clock := clock (web t) + int d \<rparr> \<rparr>"
| "step (Wake p) t = deliver p (t\<lparr> web := doRefresh_wake p (web t) \<rparr>)"
| "step (Answer p resp) t = deliver p (t\<lparr> web := doRefresh_respond p resp (web t) \<rparr>)"
| "step Timer t = on_timer t"
| "step (ProviderAnswer resp) t = on_provider_answer resp t"
| "step (ProfileAnswer r) t = on_profile_answer r t"
| "step (Mount expMs) t = on_mount expMs t"
| "step (MountAnswer resp) t = on_mount_answer resp t"
| "step (MountProfileAnswer r) t = on_mount_profile r t"

definition run :: "event list \<Rightarrow> tab \<Rightarrow> tab" where
  "run evs t = foldl (\<lambda>t e. step e t) t evs"

text \<open>
  A page that has just loaded: the module variables of axios.ts are fresh and no effect
  of the provider has run; the storage, the clock and the browser are those of \<open>w\<close>.
\<close>

definition loaded :: "web_state \<Rightarrow> tab" where
  "loaded w =
     \<lparr> web = w\<lparr> isRefreshing := False, refreshPromise := None, tasks := [], sent := [] \<rparr>,
       waiting = [], finished = [], provider = ProviderIdle, mount = NotMounted \<rparr>"

subsection \<open>What is observed of a run\<close>

definition unsettled :: "task \<Rightarrow> bool" where
  "unsettled k = (case k of Settled a \<Rightarrow> False | _ \<Rightarrow> True)"

text \<open>The POSTs to \<open>/auth/refresh\<close> that call \<open>p\<close> of \<open>doRefresh\<close> has sent.\<close>

definition posts_by :: "nat \<Rightarrow> web_state \<Rightarrow> nat" where
  "posts_by p w = count_list (sent w) (PostRefresh (ByInterceptor p))"

text \<open>All POSTs to \<open>/auth/refresh\<close> that left the tab.\<close>

definition posts :: "web_state \<Rightarrow> nat" where
  "posts w = length (filter (\<lambda>e. case e of PostRefresh i \<Rightarrow> True | _ \<Rightarrow> False) (sent w))"

text \<open>
  What a handler returns for the config it marked and what the promise settled with; the
  state has no part in it.
\<close>

definition outcome_for :: "request_config \<Rightarrow> settled \<Rightarrow> outcome" where
  "outcome_for cfg a =
     (case a of
        Rejected e \<Rightarrow> Reject e
      | Fulfilled res \<Rightarrow>
          (case get_prop res ''access_token'' of
             Inl e \<Rightarrow> Reject (Thrown e)
           | Inr tok \<Rightarrow> Retry (cfg\<lparr> authorization := Some (''Bearer '' @ js_to_string tok) \<rparr>)))"

text \<open>The Authorization header a caller retries with, and the error it is rejected with.\<close>

definition bearer :: "outcome \<Rightarrow> string option" where
  "bearer out = (case out of Retry cfg \<Rightarrow> authorization cfg | Reject e \<Rightarrow> None)"

definition rejection :: "outcome \<Rightarrow> failure option" where
  "rejection out = (case out of Retry cfg \<Rightarrow> None | Reject e \<Rightarrow> Some e)"

fun interceptor_event :: "event \<Rightarrow> bool" where
  "interceptor_event (Error401 c cfg) = True"
| "interceptor_event (Elapse d) = True"
| "interceptor_event (Wake p) = True"
| "interceptor_event (Answer p resp) = True"
| "interceptor_event e = False"

subsection \<open>What holds in every state a run reaches\<close>

text \<open>
  The POSTs of call \<open>p\<close> so far, against where the call is: none while it polls (and for
  a call that does not exist yet), one while it waits for the answer, at most one when it
  has settled.
\<close>

definition posts_ok :: "task list \<Rightarrow> nat \<Rightarrow> nat \<Rightarrow> bool" where
  "posts_ok ts p n =
     (if p < length ts then
        (case ts ! p of Polling start \<Rightarrow> n = 0 | Fetching \<Rightarrow> n = 1 | Settled a \<Rightarrow> n \<le> 1)
      else n = 0)"

text \<open>
  A call of \<open>doRefresh\<close> that has not settled is the one in \<open>refreshPromise\<close>, with
  \<open>isRefreshing\<close> set; the handlers that wait, wait for a call that has not settled; a
  handler that has returned after waiting for call \<open>p\<close> returned what the handler
  returns for what \<open>p\<close> settled with.
\<close>

definition sound :: "tab \<Rightarrow> bool" where
  "sound t \<longleftrightarrow>
     (\<forall>p. p < length (tasks (web t)) \<and> unsettled (tasks (web t) ! p) \<longrightarrow>
          isRefreshing (web t) \<and> refreshPromise (web t) = Some p) \<and>
     (\<forall>p. refreshPromise (web t) = Some p \<longrightarrow> p < length (tasks (web t))) \<and>
     (\<forall>p. posts_ok (tasks (web t)) p (posts_by p (web t))) \<and>
     (\<forall>c cfg p. (c, cfg, p) \<in> set (waiting t) \<longrightarrow>
          p < length (tasks (web t)) \<and> unsettled (tasks (web t) ! p)) \<and>
     (\<forall>c p out. (c, Some p, out) \<in> set (finished t) \<longrightarrow>
          (\<exists>a cfg. settled_with (web t) p = Some a \<and> out = outcome_for cfg a))"

text \<open>
  In a run of the interceptor alone: a call that polls finds the flag set, and a call
  that has settled has sent its POST.
\<close>

definition undisturbed :: "tab \<Rightarrow> bool" where
  "undisturbed t \<longleftrightarrow>
     (\<forall>p start. p < length (tasks (web t)) \<and> tasks (web t) ! p = Polling start \<longrightarrow>
          refresh_in_progress (web t)) \<and>
     (\<forall>p a. p < length (tasks (web t)) \<and> tasks (web t) ! p = Settled a \<longrightarrow>
          posts_by p (web t) = 1)"

section \<open>Lemmas about sets and objects\<close>

lemma set_set_from_list_aux: "set (foldl (\<lambda>acc x. set_add x acc) acc xs) = set acc \<union> set xs"
  by (induction xs arbitrary: acc) (auto simp: set_add_def)

lemma set_set_from_list: "set (set_from_list xs) = set xs"
  by (simp add: set_from_list_def set_set_from_list_aux)

lemma map_of_define_props: "map_of (define_props obj kvs) = map_of obj ++ map_of (rev kvs)"
proof (induction kvs arbitrary: obj)
  case Nil
  then show ?case by (simp add: define_props_def)
next
  case (Cons p kvs)
  obtain k v where p: "p = (k, v)" by (cases p)
  have "define_props obj (p # kvs) = define_props (AList.update k v obj) kvs"
    by (simp add: define_props_def p)
  then have "map_of (define_props obj (p # kvs)) = map_of (AList.update k v obj) ++ map_of (rev kvs)"
    by (simp add: Cons.IH)
  also have "\<dots> = (map_of obj ++ [k \<mapsto> v]) ++ map_of (rev kvs)"
    by (simp add: update_conv')
  also have "\<dots> = map_of obj ++ map_of (rev (p # kvs))"
    by (simp add: p)
  finally show ?case .
qed

lemma distinct_define_props:
  "distinct (map fst obj) \<Longrightarrow> distinct (map fst (define_props obj kvs))"
proof (induction kvs arbitrary: obj)
  case Nil
  then show ?case by (simp add: define_props_def)
next
  case (Cons p kvs)
  obtain k v where p: "p = (k, v)" by (cases p)
  have "define_props obj (p # kvs) = define_props (AList.update k v obj) kvs"
    by (simp add: define_props_def p)
  with Cons show ?case
    by (simp add: distinct_update)
qed

lemma map_of_rev_distinct: "distinct (map fst xs) \<Longrightarrow> map_of (rev xs) = map_of xs"
proof (induction xs)
  case Nil
  then show ?case by simp
next
  case (Cons p xs)
  obtain k v where p: "p = (k, v)" by (cases p)
  from Cons.prems p have none: "map_of xs k = None"
    by (simp add: map_of_eq_None_iff)
  from Cons have IH: "map_of (rev xs) = map_of xs"
    by simp
  show ?case
    using none by (auto simp: p IH map_add_def fun_eq_iff split: option.splits)
qed

lemma field_spread:
  "map_of (rev (spread a b)) k =
     (case map_of (rev (own_props b)) k of
        Some v \<Rightarrow> Some v
      | None \<Rightarrow> map_of (rev (own_props a)) k)"
proof -
  have "distinct (map fst (spread a b))"
    by (simp add: spread_def distinct_define_props)
  then have "map_of (rev (spread a b)) = map_of (spread a b)"
    by (rule map_of_rev_distinct)
  then show ?thesis
    by (simp add: spread_def map_of_define_props map_add_def split: option.splits)
qed

section \<open>Pinned symbols\<close>

lemma toUpperCase_Nil_iff: "toUpperCase s = [] \<longleftrightarrow> s = []"
  by (simp add: toUpperCase_def)

lemma extraSymbols_scheduleVisibleUpdate:
  "extraSymbols (scheduleVisibleUpdate st) = extraSymbols st"
  by (simp add: scheduleVisibleUpdate_def)

lemma set_delete_set_add_fresh: "x \<notin> set xs \<Longrightarrow> set_delete x (set_add x xs) = xs"
  by (simp add: set_delete_def set_add_def)

text \<open>
  C10. \<open>addExtraSymbol\<close> and \<open>removeExtraSymbol\<close> put their argument in upper case
  before they touch ExtraSymbols. So adding \<open>s\<close> and then removing \<open>t\<close> gives back the
  ExtraSymbols one started from (the same symbols in the same order) whenever \<open>s\<close> and
  \<open>t\<close> are the same symbol up to case and that symbol was not pinned before. On the
  empty string both return at once: no ref changes and no reconciliation is scheduled.
\<close>

theorem addExtraSymbol_removeExtraSymbol_restores:
  "(s \<noteq> [] \<longrightarrow>
      extraSymbols (addExtraSymbol s st) = set_add (toUpperCase s) (extraSymbols st)) \<and>
   (s \<noteq> [] \<longrightarrow>
      extraSymbols (removeExtraSymbol s st) = set_delete (toUpperCase s) (extraSymbols st)) \<and>
   (toUpperCase s = toUpperCase t \<and> toUpperCase s \<notin> set (extraSymbols st) \<longrightarrow>
      extraSymbols (removeExtraSymbol t (addExtraSymbol s st)) = extraSymbols st) \<and>
   addExtraSymbol [] st = st \<and>
   removeExtraSymbol [] st = st"
proof -
  have restore: "extraSymbols (removeExtraSymbol t (addExtraSymbol s st)) = extraSymbols st"
    if eq: "toUpperCase s = toUpperCase t" and fresh: "toUpperCase s \<notin> set (extraSymbols st)"
  proof (cases "s = []")
    case True
    with eq have "t = []"
      using toUpperCase_Nil_iff [of t] by (simp add: toUpperCase_def)
    with True show ?thesis
      by (simp add: addExtraSymbol_def removeExtraSymbol_def)
  next
    case False
    with eq have "t \<noteq> []"
      using toUpperCase_Nil_iff [of s] by (auto simp: toUpperCase_def)
    with False eq fresh show ?thesis
      by (simp add: addExtraSymbol_def removeExtraSymbol_def
          extraSymbols_scheduleVisibleUpdate set_delete_set_add_fresh)
  qed
  have add: "extraSymbols (addExtraSymbol s st) = set_add (toUpperCase s) (extraSymbols st)"
    if "s \<noteq> []"
    using that by (simp add: addExtraSymbol_def extraSymbols_scheduleVisibleUpdate)
  have del: "extraSymbols (removeExtraSymbol s st) = set_delete (toUpperCase s) (extraSymbols st)"
    if "s \<noteq> []"
    using that by (simp add: removeExtraSymbol_def extraSymbols_scheduleVisibleUpdate)
  have noop: "addExtraSymbol [] st = st" "removeExtraSymbol [] st = st"
    by (simp_all add: addExtraSymbol_def removeExtraSymbol_def)
  from restore add del noop show ?thesis
    by blast
qed

theorem addExtraSymbol_removeExtraSymbol_restores_witness:
  "extraSymbols (addExtraSymbol ''ethusdt'' (hook_init\<lparr>extraSymbols := [''BTCUSDT'']\<rparr>))
     = [''BTCUSDT'', ''ETHUSDT''] \<and>
   extraSymbols (removeExtraSymbol ''btcUsdt'' (hook_init\<lparr>extraSymbols := [''BTCUSDT'']\<rparr>))
     = [] \<and>
   extraSymbols (removeExtraSymbol ''EthUsdt''
      (addExtraSymbol ''ethusdt'' (hook_init\<lparr>extraSymbols := [''BTCUSDT'']\<rparr>)))
     = [''BTCUSDT'']"
  using addExtraSymbol_removeExtraSymbol_restores
    [of "''ethusdt''" "hook_init\<lparr>extraSymbols := [''BTCUSDT'']\<rparr>" "''EthUsdt''"]
    addExtraSymbol_removeExtraSymbol_restores
    [of "''btcUsdt''" "hook_init\<lparr>extraSymbols := [''BTCUSDT'']\<rparr>" "''btcUsdt''"]
  by (simp add: toUpperCase_def toUpperCase_char_def set_add_def set_delete_def hook_init_def)

section \<open>Incoming frames\<close>

lemma own_props_falsy: "\<not> truthy v \<Longrightarrow> own_props v = []"
  by (cases v rule: truthy.cases) simp_all

lemma merge_entry_object:
  assumes "map_of (rev upd) ''symbol'' = Some (JStr name)"
  shows "merge_entry cache (JObj upd) =
           Inr (cache(Some (JStr name) := Some (JObj (spread (cache (Some (JStr name))) (Some (JObj upd))))))"
proof -
  have name: "map_of (rev (spread a (Some (JObj upd)))) ''symbol'' = Some (JStr name)" for a
    using assms by (simp add: field_spread)
  have ex: "spread (if truthy v then v else Some (JObj [])) b = spread v b" for v b
    by (simp add: spread_def own_props_falsy)
  show ?thesis
    using assms by (simp add: merge_entry_def Let_def name ex)
qed

lemma handle_msg_summary:
  assumes "get_prop msg ''type'' = Inr (Some (JStr ''summary''))"
    and "get_prop msg ''data'' = Inr (Some (JObj upd))"
    and "map_of (rev upd) ''symbol'' = Some (JStr name)"
  shows "handle_msg cache msg =
           (cache(Some (JStr name) := Some (JObj (spread (cache (Some (JStr name))) (Some (JObj upd))))),
            None)"
  using assms by (simp add: handle_msg_def merge_entry_object)

lemma handle_msg_batch:
  assumes "get_prop msg ''type'' = Inr (Some (JStr ''batch''))"
    and "get_prop msg ''data'' = Inr (Some (JArr ds))"
  shows "handle_msg cache msg = merge_batch cache ds"
  using assms by (simp add: handle_msg_def)

text \<open>
  C3, on the hook of apps/web/app/hooks. A summary frame whose
  \<open>data\<close> is an object \<open>upd\<close> for the symbol \<open>name\<close> leaves under \<open>name\<close> an object that
  has every field of \<open>upd\<close> with the value of \<open>upd\<close>, and every other field of the entry
  that was there before with its prior value. A batch frame whose first entry is \<open>upd\<close>
  does the same for \<open>upd\<close> and then goes on with the rest of its entries.
\<close>

theorem onmessage_shallow_merge:
  assumes "get_prop msg ''type'' = Inr (Some (JStr ''summary''))"
    and "get_prop msg ''data'' = Inr (Some (JObj upd))"
    and "map_of (rev upd) ''symbol'' = Some (JStr name)"
    and "get_prop bmsg ''type'' = Inr (Some (JStr ''batch''))"
    and "get_prop bmsg ''data'' = Inr (Some (JArr (JObj upd # rest)))"
    and "get_prop bmsg' ''type'' = Inr (Some (JStr ''batch''))"
    and "get_prop bmsg' ''data'' = Inr (Some (JArr rest))"
  shows "(\<exists>merged.
            getLatest name (fst (onmessage (Some msg) st)) = Some (JObj merged) \<and>
            (\<forall>k. map_of (rev merged) k =
                   (case map_of (rev upd) k of
                      Some v \<Rightarrow> Some v
                    | None \<Rightarrow> map_of (rev (own_props (getLatest name st))) k))) \<and>
         (\<forall>other. other \<noteq> name \<longrightarrow>
            getLatest other (fst (onmessage (Some msg) st)) = getLatest other st) \<and>
         onmessage (Some bmsg) st = onmessage (Some bmsg') (fst (onmessage (Some msg) st))"
proof -
  let ?merged = "spread (latest st (Some (JStr name))) (Some (JObj upd))"
  let ?cache = "(latest st)(Some (JStr name) := Some (JObj ?merged))"
  have summary: "handle_msg (latest st) msg = (?cache, None)"
    using assms(1-3) by (rule handle_msg_summary)
  then have st1: "fst (onmessage (Some msg) st) = st\<lparr>latest := ?cache\<rparr>"
    by (simp add: onmessage_def catch_all_def)
  have "getLatest name (fst (onmessage (Some msg) st)) = Some (JObj ?merged)"
    by (simp add: st1 getLatest_def)
  moreover have "map_of (rev ?merged) k =
      (case map_of (rev upd) k of
         Some v \<Rightarrow> Some v
       | None \<Rightarrow> map_of (rev (own_props (getLatest name st))) k)" for k
    unfolding getLatest_def by (simp add: field_spread)
  moreover have "getLatest other (fst (onmessage (Some msg) st)) = getLatest other st"
    if "other \<noteq> name" for other
    using that by (simp add: st1 getLatest_def)
  moreover have "onmessage (Some bmsg) st = onmessage (Some bmsg') (fst (onmessage (Some msg) st))"
  proof -
    have "handle_msg (latest st) bmsg = merge_batch (latest st) (JObj upd # rest)"
      using assms(4,5) by (rule handle_msg_batch)
    also have "\<dots> = merge_batch ?cache rest"
      using assms(3) by (simp add: merge_entry_object)
    also have "\<dots> = handle_msg ?cache bmsg'"
      using assms(6,7) by (simp add: handle_msg_batch)
    finally show ?thesis
      by (simp add: onmessage_def catch_all_def summary)
  qed
  ultimately show ?thesis
    by blast
qed

text \<open>
  The example of the specification, and the same two updates arriving in one batch.
\<close>

theorem onmessage_shallow_merge_witness:
  "getLatest ''BTCUSDT''
     (fst (onmessage
        (Some (JObj [(''type'', JStr ''summary''),
                     (''data'', JObj [(''symbol'', JStr ''BTCUSDT''), (''last_price'', JNum 101)])]))
        (fst (onmessage
           (Some (JObj [(''type'', JStr ''summary''),
                        (''data'', JObj [(''symbol'', JStr ''BTCUSDT''), (''last_price'', JNum 100),
                                         (''volume'', JNum 5)])]))
           hook_init))))
   = Some (JObj [(''symbol'', JStr ''BTCUSDT''), (''last_price'', JNum 101), (''volume'', JNum 5)])"
  using onmessage_shallow_merge
    [of "JObj [(''type'', JStr ''summary''),
               (''data'', JObj [(''symbol'', JStr ''BTCUSDT''), (''last_price'', JNum 101)])]"
        "[(''symbol'', JStr ''BTCUSDT''), (''last_price'', JNum 101)]"
        "''BTCUSDT''"
        "JObj [(''type'', JStr ''batch''),
               (''data'', JArr [JObj [(''symbol'', JStr ''BTCUSDT''), (''last_price'', JNum 101)]])]"
        "[]"
        "JObj [(''type'', JStr ''batch''), (''data'', JArr [])]"
        "fst (onmessage
           (Some (JObj [(''type'', JStr ''summary''),
                        (''data'', JObj [(''symbol'', JStr ''BTCUSDT''), (''last_price'', JNum 100),
                                         (''volume'', JNum 5)])]))
           hook_init)"]
  by (simp add: onmessage_def catch_all_def handle_msg_def merge_entry_def spread_def
      define_props_def getLatest_def hook_init_def)

text \<open>
  The older hook (apps/web/hooks) on the same two frames: the second update takes the
  place of the entry, and \<open>volume\<close> is gone.
\<close>

theorem old_onmessage_replaces:
  "getLatest ''BTCUSDT''
     (fst (old_onmessage
        (Some (JObj [(''type'', JStr ''summary''),
                     (''data'', JObj [(''symbol'', JStr ''BTCUSDT''), (''last_price'', JNum 101)])]))
        (fst (old_onmessage
           (Some (JObj [(''type'', JStr ''summary''),
                        (''data'', JObj [(''symbol'', JStr ''BTCUSDT''), (''last_price'', JNum 100),
                                         (''volume'', JNum 5)])]))
           hook_init))))
   = Some (JObj [(''symbol'', JStr ''BTCUSDT''), (''last_price'', JNum 101)]) \<and>
   Some (JObj [(''symbol'', JStr ''BTCUSDT''), (''last_price'', JNum 101)])
     \<noteq> Some (JObj [(''symbol'', JStr ''BTCUSDT''), (''last_price'', JNum 101), (''volume'', JNum 5)])"
  by (simp add: old_onmessage_def catch_all_def old_handle_msg_def store_entry_def
      getLatest_def hook_init_def)











section \<open>The REST fallback\<close>

lemma fetchSnapshot_begin_Cons:
  "fetchSnapshot_begin (Some (s # syms)) opts now st =
     (let toFetch = filter (\<lambda>x. is_forced opts \<or> now - last_fetch st x > cooldown_of opts)
                      (set_from_list ((s # syms) @ extraSymbols st))
      in if toFetch = [] then (st, None)
         else (st\<lparr> effects := effects st @
                 [Fetch \<lparr> req_symbols = toFetch,
                          include_klines = (extraSymbols st \<noteq> [] \<or> is_forced opts),
                          kline_interval =
                            (case opts of
                               None \<Rightarrow> ''1m''
                             | Some opt \<Rightarrow> (case klineInterval opt of None \<Rightarrow> ''1m'' | Some i \<Rightarrow> i)),
                          kline_limit =
                            (case opts of
                               None \<Rightarrow> 48
                             | Some opt \<Rightarrow> (case klineLimit opt of None \<Rightarrow> 48 | Some l \<Rightarrow> l)) \<rparr>] \<rparr>,
               Some \<lparr> req_symbols = toFetch,
                      include_klines = (extraSymbols st \<noteq> [] \<or> is_forced opts),
                      kline_interval =
                        (case opts of
                           None \<Rightarrow> ''1m''
                         | Some opt \<Rightarrow> (case klineInterval opt of None \<Rightarrow> ''1m'' | Some i \<Rightarrow> i)),
                      kline_limit =
                        (case opts of
                           None \<Rightarrow> 48
                         | Some opt \<Rightarrow> (case klineLimit opt of None \<Rightarrow> 48 | Some l \<Rightarrow> l)) \<rparr>))"
  by (simp add: fetchSnapshot_begin_def Let_def)

lemma fetchSnapshot_begin_symbols:
  "snd (fetchSnapshot_begin (Some (s # syms)) opts now st) = Some req \<Longrightarrow>
   set (req_symbols req) =
     {x \<in> set (s # syms) \<union> set (extraSymbols st).
        is_forced opts \<or> now - last_fetch st x > cooldown_of opts}"
  by (auto simp: fetchSnapshot_begin_Cons Let_def set_set_from_list split: if_splits)

lemma fetchSnapshot_begin_sends:
  assumes "x \<in> set (s # syms) \<union> set (extraSymbols st)"
    and "is_forced opts \<or> now - last_fetch st x > cooldown_of opts"
  shows "\<exists>req. snd (fetchSnapshot_begin (Some (s # syms)) opts now st) = Some req \<and>
               x \<in> set (req_symbols req)"
proof -
  let ?toFetch = "filter (\<lambda>x. is_forced opts \<or> now - last_fetch st x > cooldown_of opts)
                      (set_from_list ((s # syms) @ extraSymbols st))"
  from assms have "x \<in> set ?toFetch"
    by (auto simp: set_set_from_list)
  moreover from this have "?toFetch \<noteq> []"
    by (metis empty_iff empty_set)
  ultimately show ?thesis
    by (simp add: fetchSnapshot_begin_Cons Let_def)
qed

lemma fetchSnapshot_begin_refs:
  "extraSymbols (fst (fetchSnapshot_begin symbols opts now st)) = extraSymbols st \<and>
   lastSnapshotFetch (fst (fetchSnapshot_begin symbols opts now st)) = lastSnapshotFetch st \<and>
   latest (fst (fetchSnapshot_begin symbols opts now st)) = latest st"
  by (simp add: fetchSnapshot_begin_def Let_def split: option.splits list.splits)

lemma store_summaries_keeps:
  "lastSnapshotFetch st u = Some now \<Longrightarrow>
   lastSnapshotFetch (fst (store_summaries now ss st)) u = Some now"
  by (induction ss arbitrary: st)
    (auto simp: Let_def split: sum.splits option.splits json.splits)

lemma store_summaries_extraSymbols:
  "extraSymbols (fst (store_summaries now ss st)) = extraSymbols st"
  by (induction ss arbitrary: st)
    (auto simp: Let_def split: sum.splits option.splits json.splits)

lemma store_summaries_lists:
  "lists_symbol u ss \<Longrightarrow> lastSnapshotFetch (fst (store_summaries now ss st)) u = Some now"
proof (induction ss arbitrary: st)
  case Nil
  then show ?case by simp
next
  case (Cons s ss)
  from Cons.prems obtain name where name: "get_prop s ''symbol'' = Inr (Some (JStr name))"
    and cases: "toUpperCase name = u \<or> lists_symbol u ss"
    by (auto split: sum.splits option.splits json.splits)
  let ?st = "st\<lparr> latest := (latest st)(Some (JStr name) := Some s),
                 lastSnapshotFetch := (lastSnapshotFetch st)(toUpperCase name := Some now) \<rparr>"
  have step: "store_summaries now (s # ss) st = store_summaries now ss ?st"
    by (simp add: name Let_def)
  from cases show ?case
  proof
    assume "toUpperCase name = u"
    then have "lastSnapshotFetch ?st u = Some now"
      by simp
    then show ?thesis
      unfolding step by (rule store_summaries_keeps)
  next
    assume "lists_symbol u ss"
    then show ?thesis
      unfolding step by (rule Cons.IH)
  qed
qed

lemma fetchSnapshot_resume_lists:
  assumes "get_prop body ''summaries'' = Inr (Some (JArr ss))"
    and "lists_symbol u ss"
  shows "lastSnapshotFetch (fst (fetchSnapshot_resume (FetchResponse True (Some body)) now st)) u
           = Some now \<and>
         extraSymbols (fst (fetchSnapshot_resume (FetchResponse True (Some body)) now st))
           = extraSymbols st"
proof -
  obtain st' err where r: "store_summaries now ss st = (st', err)"
    by (cases "store_summaries now ss st")
  with store_summaries_lists [OF assms(2), of now st] store_summaries_extraSymbols [of now ss st]
  have "lastSnapshotFetch st' u = Some now" "extraSymbols st' = extraSymbols st"
    by simp_all
  then show ?thesis
    using assms(1) r by (cases err) (simp_all add: fetchSnapshot_resume_def catch_all_def)
qed

text \<open>
  C9. Called with a missing or an empty array, \<open>fetchSnapshot\<close> returns at once: the
  state of the hook (cache, cooldown map, effects) is the one it was called in and no
  request is sent, whatever ExtraSymbols holds. Called with at least one symbol, a pinned
  symbol that is due (forced, or out of its cooldown) goes into the request.
\<close>

theorem fetchSnapshot_empty_returns:
  "fetchSnapshot_begin None opts now st = (st, None) \<and>
   fetchSnapshot_begin (Some []) opts now st = (st, None) \<and>
   fetchSnapshot None opts now resp now' st = (st, None) \<and>
   fetchSnapshot (Some []) opts now resp now' st = (st, None) \<and>
   (e \<in> set (extraSymbols st) \<and> (is_forced opts \<or> now - last_fetch st e > cooldown_of opts) \<longrightarrow>
      (\<exists>req. snd (fetchSnapshot_begin (Some (s # syms)) opts now st) = Some req \<and>
             e \<in> set (req_symbols req)))"
proof -
  have "\<exists>req. snd (fetchSnapshot_begin (Some (s # syms)) opts now st) = Some req \<and>
               e \<in> set (req_symbols req)"
    if "e \<in> set (extraSymbols st)"
      and "is_forced opts \<or> now - last_fetch st e > cooldown_of opts"
    using that by (intro fetchSnapshot_begin_sends) simp_all
  then show ?thesis
    by (simp add: fetchSnapshot_begin_def fetchSnapshot_def)
qed

theorem fetchSnapshot_empty_returns_witness:
  "fetchSnapshot (Some []) None 1000000 FetchRejected 1000001
      (hook_init\<lparr>extraSymbols := [''ETHUSDT'']\<rparr>)
     = (hook_init\<lparr>extraSymbols := [''ETHUSDT'']\<rparr>, None) \<and>
   snd (fetchSnapshot_begin (Some [''BTCUSDT'']) None 1000000
      (hook_init\<lparr>extraSymbols := [''ETHUSDT'']\<rparr>))
     = Some \<lparr> req_symbols = [''BTCUSDT'', ''ETHUSDT''], include_klines = True,
              kline_interval = ''1m'', kline_limit = 48 \<rparr>"
  using fetchSnapshot_empty_returns
    [of None 1000000 "hook_init\<lparr>extraSymbols := [''ETHUSDT'']\<rparr>" FetchRejected 1000001
        "''ETHUSDT''" "''BTCUSDT''" "[]"]
  by (simp add: fetchSnapshot_def fetchSnapshot_begin_def set_from_list_def set_add_def
      last_fetch_def cooldown_of_def is_forced_def hook_init_def Let_def)

text \<open>
  C5, as the code has it. The cooldown of a symbol starts when a response that lists it
  has been stored, not when the request leaves. So: a first call for \<open>name\<close> that is due
  sends a request for it; once its response (ok, listing \<open>name\<close>) was handled at \<open>t1\<close>,
  a call that is not forced and comes no later than the cooldown after \<open>t1\<close> sends no
  request for \<open>name\<close> (none at all when nothing else is pinned), and a forced call sends
  one at any time.
\<close>

theorem fetchSnapshot_cooldown:
  assumes due: "is_forced opts1 \<or> now1 - last_fetch st name > cooldown_of opts1"
    and body: "get_prop body ''summaries'' = Inr (Some (JArr ss))"
    and listed: "lists_symbol (toUpperCase name) ss"
    and first: "fetchSnapshot (Some [name]) opts1 now1 (FetchResponse True (Some body)) t1 st
                  = (st1, r1)"
    and within: "now2 - t1 \<le> cooldown_of opts2"
    and unforced: "\<not> is_forced opts2"
  shows "(\<exists>req. r1 = Some req \<and> name \<in> set (req_symbols req)) \<and>
         (case snd (fetchSnapshot_begin (Some [name]) opts2 now2 st1) of
            None \<Rightarrow> True
          | Some req \<Rightarrow> name \<notin> set (req_symbols req)) \<and>
         (extraSymbols st1 = [] \<longrightarrow> fetchSnapshot_begin (Some [name]) opts2 now2 st1 = (st1, None)) \<and>
         (\<exists>req. snd (fetchSnapshot_begin (Some [name]) (Some (opts3\<lparr>force := True\<rparr>)) now3 st1)
                  = Some req \<and>
                name \<in> set (req_symbols req))"
proof -
  from due obtain req where req: "snd (fetchSnapshot_begin (Some [name]) opts1 now1 st) = Some req"
    and mem: "name \<in> set (req_symbols req)"
    using fetchSnapshot_begin_sends [of name name "[]" st opts1 now1] by auto
  obtain st0 where st0: "fetchSnapshot_begin (Some [name]) opts1 now1 st = (st0, Some req)"
    using req by (cases "fetchSnapshot_begin (Some [name]) opts1 now1 st") simp
  from first st0 have r1: "r1 = Some req"
    and st1: "st1 = fst (fetchSnapshot_resume (FetchResponse True (Some body)) t1 st0)"
    by (simp_all add: fetchSnapshot_def)
  from fetchSnapshot_resume_lists [OF body listed, of t1 st0]
  have stamp: "lastSnapshotFetch st1 (toUpperCase name) = Some t1"
    by (simp add: st1)
  then have last: "last_fetch st1 name = t1"
    by (simp add: last_fetch_def)
  have not_due: "\<not> (is_forced opts2 \<or> now2 - last_fetch st1 name > cooldown_of opts2)"
    using within unforced by (simp add: last)
  have second: "name \<notin> set (req_symbols req2)"
    if "snd (fetchSnapshot_begin (Some [name]) opts2 now2 st1) = Some req2" for req2
    using fetchSnapshot_begin_symbols [OF that] not_due by auto
  have alone: "fetchSnapshot_begin (Some [name]) opts2 now2 st1 = (st1, None)"
    if "extraSymbols st1 = []"
    using that not_due
    by (simp add: fetchSnapshot_begin_Cons set_from_list_def set_add_def)
  have forced: "\<exists>req. snd (fetchSnapshot_begin (Some [name]) (Some (opts3\<lparr>force := True\<rparr>)) now3 st1)
                  = Some req \<and> name \<in> set (req_symbols req)"
    by (rule fetchSnapshot_begin_sends) (simp_all add: is_forced_def)
  from r1 mem second alone forced show ?thesis
    by (auto split: option.splits)
qed

theorem fetchSnapshot_cooldown_witness:
  "snd (fetchSnapshot (Some [''BTCUSDT'']) None 1000000
          (FetchResponse True
             (Some (JObj [(''summaries'',
                JArr [JObj [(''symbol'', JStr ''BTCUSDT''), (''last_price'', JNum 100)]])])))
          1000040 hook_init)
     = Some \<lparr> req_symbols = [''BTCUSDT''], include_klines = False,
              kline_interval = ''1m'', kline_limit = 48 \<rparr> \<and>
   snd (fetchSnapshot_begin (Some [''BTCUSDT'']) None 1005040
     (fst (fetchSnapshot (Some [''BTCUSDT'']) None 1000000
          (FetchResponse True
             (Some (JObj [(''summaries'',
                JArr [JObj [(''symbol'', JStr ''BTCUSDT''), (''last_price'', JNum 100)]])])))
          1000040 hook_init)))
     = None \<and>
   snd (fetchSnapshot_begin (Some [''BTCUSDT''])
     (Some \<lparr> force = True, cooldownMs = None, klineInterval = None, klineLimit = None \<rparr>) 1000041
     (fst (fetchSnapshot (Some [''BTCUSDT'']) None 1000000
          (FetchResponse True
             (Some (JObj [(''summaries'',
                JArr [JObj [(''symbol'', JStr ''BTCUSDT''), (''last_price'', JNum 100)]])])))
          1000040 hook_init)))
     = Some \<lparr> req_symbols = [''BTCUSDT''], include_klines = True,
              kline_interval = ''1m'', kline_limit = 48 \<rparr>"
  using fetchSnapshot_cooldown
    [of None 1000000 hook_init "''BTCUSDT''"
        "JObj [(''summaries'',
                JArr [JObj [(''symbol'', JStr ''BTCUSDT''), (''last_price'', JNum 100)]])]"
        "[JObj [(''symbol'', JStr ''BTCUSDT''), (''last_price'', JNum 100)]]"
        1000040
        "fst (fetchSnapshot (Some [''BTCUSDT'']) None 1000000
          (FetchResponse True
             (Some (JObj [(''summaries'',
                JArr [JObj [(''symbol'', JStr ''BTCUSDT''), (''last_price'', JNum 100)]])])))
          1000040 hook_init)"
        "snd (fetchSnapshot (Some [''BTCUSDT'']) None 1000000
          (FetchResponse True
             (Some (JObj [(''summaries'',
                JArr [JObj [(''symbol'', JStr ''BTCUSDT''), (''last_price'', JNum 100)]])])))
          1000040 hook_init)"
        1005040 None
        "\<lparr> force = False, cooldownMs = None, klineInterval = None, klineLimit = None \<rparr>"
        1000041]
  by (simp add: fetchSnapshot_def fetchSnapshot_begin_def fetchSnapshot_resume_def
      catch_all_def set_from_list_def set_add_def last_fetch_def cooldown_of_def
      is_forced_def hook_init_def Let_def toUpperCase_def toUpperCase_char_def)

text \<open>
  Two calls for BTCUSDT 100 ms apart that both send a request for it: the first
  response was not ok, so no cooldown started. And two calls 1 ms apart, the second made
  while the first request is still in flight: both send.
\<close>

theorem fetchSnapshot_two_requests:
  "effects
     (fst (fetchSnapshot (Some [''BTCUSDT'']) None 1000100 (FetchResponse False None) 1000140
       (fst (fetchSnapshot (Some [''BTCUSDT'']) None 1000000 (FetchResponse False None) 1000040
          hook_init))))
     = [Fetch \<lparr> req_symbols = [''BTCUSDT''], include_klines = False,
                kline_interval = ''1m'', kline_limit = 48 \<rparr>,
        Fetch \<lparr> req_symbols = [''BTCUSDT''], include_klines = False,
                kline_interval = ''1m'', kline_limit = 48 \<rparr>] \<and>
   effects
     (fst (fetchSnapshot_begin (Some [''BTCUSDT'']) None 1000001
       (fst (fetchSnapshot_begin (Some [''BTCUSDT'']) None 1000000 hook_init))))
     = [Fetch \<lparr> req_symbols = [''BTCUSDT''], include_klines = False,
                kline_interval = ''1m'', kline_limit = 48 \<rparr>,
        Fetch \<lparr> req_symbols = [''BTCUSDT''], include_klines = False,
                kline_interval = ''1m'', kline_limit = 48 \<rparr>]"
  by (simp add: fetchSnapshot_def fetchSnapshot_begin_def fetchSnapshot_resume_def
      catch_all_def set_from_list_def set_add_def last_fetch_def cooldown_of_def
      is_forced_def hook_init_def Let_def toUpperCase_def toUpperCase_char_def)

section \<open>Reconciliation on an open socket\<close>

lemma connectWS_open:
  assumes "wsRef st = Some w" and "readyState w = OPEN"
    and "set_from_list (symbols @ extraSymbols st) \<noteq> []"
  shows "connectWS symbols st =
           (if sameAsLast (sort (filter (\<lambda>s. s \<noteq> []) (map toUpperCase symbols))) (lastSentSymbols st)
            then st
            else if send_throws w
            then st\<lparr> effects := effects st @ [WsClose (ws_id w)], wsRef := None \<rparr>
            else st\<lparr> effects := effects st @ [WsSend (ws_id w) symbols],
                     lastSentSymbols :=
                       Some (sort (filter (\<lambda>s. s \<noteq> []) (map toUpperCase symbols))) \<rparr>)"
  using assms by (simp add: connectWS_def Let_def)

text \<open>
  C4 at a failing input. The socket is OPEN and the last \<open>replace\<close> carried BTCUSDT.
  First: BTCUSDT is still the one visible symbol and ETHUSDT has just been pinned, so the
  target is now BTCUSDT and ETHUSDT; reconciliation sends nothing and changes nothing.
  Second: SOLUSDT has become visible too; the one \<open>replace\<close> that is sent carries
  BTCUSDT and SOLUSDT, without the pinned ETHUSDT of the target.
\<close>

theorem connectWS_open_ignores_extras:
  "target (hook_init\<lparr> visibleSet := [''BTCUSDT''], extraSymbols := [''ETHUSDT''],
                      wsRef := Some \<lparr> ws_id = 0, readyState = OPEN, send_throws = False \<rparr>,
                      lastSentSymbols := Some [''BTCUSDT''], next_id := 1 \<rparr>)
     = [''BTCUSDT'', ''ETHUSDT''] \<and>
   reconcile (hook_init\<lparr> visibleSet := [''BTCUSDT''], extraSymbols := [''ETHUSDT''],
                      wsRef := Some \<lparr> ws_id = 0, readyState = OPEN, send_throws = False \<rparr>,
                      lastSentSymbols := Some [''BTCUSDT''], next_id := 1 \<rparr>)
     = hook_init\<lparr> visibleSet := [''BTCUSDT''], extraSymbols := [''ETHUSDT''],
                      wsRef := Some \<lparr> ws_id = 0, readyState = OPEN, send_throws = False \<rparr>,
                      lastSentSymbols := Some [''BTCUSDT''], next_id := 1 \<rparr> \<and>
   target (hook_init\<lparr> visibleSet := [''BTCUSDT'', ''SOLUSDT''], extraSymbols := [''ETHUSDT''],
                      wsRef := Some \<lparr> ws_id = 0, readyState = OPEN, send_throws = False \<rparr>,
                      lastSentSymbols := Some [''BTCUSDT''], next_id := 1 \<rparr>)
     = [''BTCUSDT'', ''SOLUSDT'', ''ETHUSDT''] \<and>
   effects (reconcile
       (hook_init\<lparr> visibleSet := [''BTCUSDT'', ''SOLUSDT''], extraSymbols := [''ETHUSDT''],
                      wsRef := Some \<lparr> ws_id = 0, readyState = OPEN, send_throws = False \<rparr>,
                      lastSentSymbols := Some [''BTCUSDT''], next_id := 1 \<rparr>))
     = [WsSend 0 [''BTCUSDT'', ''SOLUSDT'']]"
  by (simp add: target_def reconcile_def connectWS_def sameAsLast_def every_eq_at_def
      set_from_list_def set_add_def hook_init_def Let_def toUpperCase_def toUpperCase_char_def)

section \<open>The proactive refresh of the web session\<close>

lemma scheduleNext_delay:
  "scheduleNext decode auth_token stored_token now =
     (case getExpiryFromToken decode
             (if auth_token \<noteq> None \<and> auth_token \<noteq> Some [] then auth_token
              else if stored_token \<noteq> None \<and> stored_token \<noteq> Some [] then stored_token
              else None) of
        None \<Rightarrow> 600000
      | Some expMs \<Rightarrow>
          if expMs = 0 then 600000
          else if expMs - 25000 \<le> now then 50
          else expMs - 25000 - now)"
  by (simp add: scheduleNext_def Let_def max_def split: option.splits)

text \<open>
  C6 at a failing input. The stored access token expires in one hour (\<open>exp\<close> is
  1700003600 and the clock reads 1700000000000 ms). \<open>scheduleNext\<close> itself would set the
  timer 25 s before expiry (3575000 ms from now), and for a token that expires in 10 s
  a timer of 50 ms; without an \<open>exp\<close> claim one of ten minutes. In a browser without
  \<open>BroadcastChannel\<close> the effect sets that timer. In a browser that has
  \<open>BroadcastChannel\<close> the effect returns before it reaches \<open>scheduleNext\<close>: no refresh
  is scheduled.
\<close>

theorem refresh_effect_returns_early:
  "scheduleNext (\<lambda>p. Some (JObj [(''exp'', JNum 1700003600)])) None (Some ''h.p.s'') 1700000000000
     = 3575000 \<and>
   scheduleNext (\<lambda>p. Some (JObj [(''exp'', JNum 1700000010)])) None (Some ''h.p.s'') 1700000000000
     = 50 \<and>
   scheduleNext (\<lambda>p. Some (JObj [(''sub'', JStr ''u1'')])) None (Some ''h.p.s'') 1700000000000
     = 600000 \<and>
   refresh_effect False True (\<lambda>p. Some (JObj [(''exp'', JNum 1700003600)])) None (Some ''h.p.s'')
     1700000000000 = TimerSet 3575000 \<and>
   refresh_effect True True (\<lambda>p. Some (JObj [(''exp'', JNum 1700003600)])) None (Some ''h.p.s'')
     1700000000000 = Listening"
  by (simp add: scheduleNext_def getExpiryFromToken_def refresh_effect_def Let_def)

section \<open>The auto-refresh of the mobile session\<close>

lemma auto_refresh_tick_failure:
  assumes "refresh r0 (tokens st) = Inl e"
  shows "auto_refresh_tick now r0 r1 r2 r3 st =
           (if consecutiveFailures st + 1 \<ge> 3
            then st\<lparr> lastRefreshError := Some e, consecutiveFailures := 0,
                     tokens := \<lparr> access_item = None, refresh_item = None \<rparr>,
                     user := None, refreshTimer := None \<rparr>
            else st\<lparr> lastRefreshError := Some e,
                     consecutiveFailures := consecutiveFailures st + 1 \<rparr>)"
  using assms by (simp add: auto_refresh_tick_def Let_def stopAutoRefresh_def clearTokens_def)

lemma auto_refresh_tick_success:
  assumes "refresh r0 (tokens st) = Inr (tok, ts)"
  shows "consecutiveFailures (auto_refresh_tick now r0 r1 r2 r3 st) = 0 \<and>
         refreshTimer (auto_refresh_tick now r0 r1 r2 r3 st) = refreshTimer st \<and>
         user (auto_refresh_tick now r0 r1 r2 r3 st) = fst (refreshUser r1 r2 r3 ts)"
  using assms by (simp add: auto_refresh_tick_def split: prod.splits)

text \<open>
  C8 at a failing input. The user is signed in, no refresh has failed. In one run of the
  interval the refresh succeeds (200, rotated tokens) and the \<open>GET /user/me\<close> of
  \<open>refreshUser()\<close> that follows is answered with 500. The run counts as a success: the
  counter is 0, the timer goes on, the rotated tokens are stored. But the user is
  \<open>null\<close>. In a second run the profile request gets a 401 and the refresh inside
  \<open>fetchWithAuth\<close> fails: the user is \<open>null\<close> and the stored tokens are cleared, with
  the counter at 0.
\<close>

theorem auto_refresh_tick_signs_out_early:
  "auto_refresh_tick 1000
      (Http 200 (Some (JObj [(''access_token'', JStr ''a1''), (''refresh_token'', JStr ''r1'')])))
      (Http 500 None) NetFail NetFail
      \<lparr> user = Some (JObj [(''email'', JStr ''u@example.org'')]),
        tokens = \<lparr> access_item = Some (JStr ''a0''), refresh_item = Some (JStr ''r0'') \<rparr>,
        refreshTimer = Some 1, consecutiveFailures = 0,
        lastRefreshAt = None, lastRefreshError = None \<rparr>
     = \<lparr> user = None,
         tokens = \<lparr> access_item = Some (JStr ''a1''), refresh_item = Some (JStr ''r1'') \<rparr>,
         refreshTimer = Some 1, consecutiveFailures = 0,
         lastRefreshAt = Some 1000, lastRefreshError = None \<rparr> \<and>
   auto_refresh_tick 1000
      (Http 200 (Some (JObj [(''access_token'', JStr ''a1''), (''refresh_token'', JStr ''r1'')])))
      (Http 401 None) (Http 401 None) NetFail
      \<lparr> user = Some (JObj [(''email'', JStr ''u@example.org'')]),
        tokens = \<lparr> access_item = Some (JStr ''a0''), refresh_item = Some (JStr ''r0'') \<rparr>,
        refreshTimer = Some 1, consecutiveFailures = 0,
        lastRefreshAt = None, lastRefreshError = None \<rparr>
     = \<lparr> user = None,
         tokens = \<lparr> access_item = None, refresh_item = None \<rparr>,
         refreshTimer = Some 1, consecutiveFailures = 0,
         lastRefreshAt = Some 1000, lastRefreshError = None \<rparr>"
  by (simp add: auto_refresh_tick_def refresh_def refreshUser_def fetchWithAuth_def
      js_or_def clearTokens_def Let_def)

section \<open>The response interceptor\<close>
























section \<open>Single flight of the refresh\<close>

lemma snd_response_error_resume: "snd (response_error_resume cfg a w) = outcome_for cfg a"
  by (simp add: response_error_resume_def outcome_for_def Let_def split: settled.splits sum.splits)

lemma tasks_logout_cleanup [simp]:
  "tasks (logout_cleanup w) = tasks w"
  "isRefreshing (logout_cleanup w) = isRefreshing w"
  "refreshPromise (logout_cleanup w) = refreshPromise w"
  "refresh_in_progress (logout_cleanup w) = refresh_in_progress w"
  "posts_by p (logout_cleanup w) = posts_by p w"
  by (simp_all add: logout_cleanup_def posts_by_def)

lemma tasks_persist_tokens [simp]:
  "tasks (persist_tokens res w) = tasks w"
  "isRefreshing (persist_tokens res w) = isRefreshing w"
  "refreshPromise (persist_tokens res w) = refreshPromise w"
  "refresh_in_progress (persist_tokens res w) = refresh_in_progress w"
  "posts_by p (persist_tokens res w) = posts_by p w"
  by (simp_all add: persist_tokens_def posts_by_def split: option.splits stored_json.splits sum.splits)

lemma posts_by_module_vars [simp]:
  "posts_by p (w\<lparr> isRefreshing := b \<rparr>) = posts_by p w"
  "posts_by p (w\<lparr> refreshPromise := r \<rparr>) = posts_by p w"
  "posts_by p (w\<lparr> tasks := ts \<rparr>) = posts_by p w"
  "posts_by p (w\<lparr> refresh_in_progress := f \<rparr>) = posts_by p w"
  "posts_by p (w\<lparr> clock := n \<rparr>) = posts_by p w"
  "posts_by p (w\<lparr> cryptics_auth := ca \<rparr>) = posts_by p w"
  "posts_by p (w\<lparr> access_token := at \<rparr>) = posts_by p w"
  by (simp_all add: posts_by_def)

lemma resume_frame:
  "tasks (fst (response_error_resume cfg a w)) = tasks w"
  "refresh_in_progress (fst (response_error_resume cfg a w)) = refresh_in_progress w"
  "posts_by p (fst (response_error_resume cfg a w)) = posts_by p w"
  by (simp_all add: response_error_resume_def Let_def split: settled.splits sum.splits)

lemma resume_waiting_frame:
  "tasks (fst (resume_waiting p a ws (w, fin))) = tasks w \<and>
   refresh_in_progress (fst (resume_waiting p a ws (w, fin))) = refresh_in_progress w \<and>
   posts_by q (fst (resume_waiting p a ws (w, fin))) = posts_by q w"
  by (induction p a ws "(w, fin)" arbitrary: w fin rule: resume_waiting.induct)
    (simp_all add: resume_frame)

lemma resume_waiting_none:
  "\<forall>(c, cfg, q) \<in> set ws. q \<noteq> p \<Longrightarrow> resume_waiting p a ws acc = acc"
  by (induction p a ws acc rule: resume_waiting.induct) auto

lemma resume_waiting_finished:
  "set (snd (resume_waiting p a ws (w, fin))) \<subseteq>
     set fin \<union> {(c, Some p, outcome_for cfg a) | c cfg. (c, cfg, p) \<in> set ws}"
  by (induction p a ws "(w, fin)" arbitrary: w fin rule: resume_waiting.induct)
    (auto simp: snd_response_error_resume)

lemma sound_loaded: "sound (loaded w)"
  by (simp add: sound_def loaded_def posts_ok_def posts_by_def)

lemma resume_module:
  "isRefreshing (fst (response_error_resume cfg a w)) \<Longrightarrow>
   isRefreshing w \<and> refreshPromise (fst (response_error_resume cfg a w)) = refreshPromise w"
  by (auto simp: response_error_resume_def Let_def split: settled.splits sum.splits)

lemma resume_promise:
  "refreshPromise (fst (response_error_resume cfg a w)) = Some p \<Longrightarrow> refreshPromise w = Some p"
  by (auto simp: response_error_resume_def Let_def split: settled.splits sum.splits)

lemma settled_with_resume [simp]:
  "settled_with (fst (response_error_resume cfg a w)) p = settled_with w p"
  by (simp add: settled_with_def resume_frame)

lemma settled_with_Some_iff:
  "settled_with w p = Some a \<longleftrightarrow> p < length (tasks w) \<and> tasks w ! p = Settled a"
  by (auto simp: settled_with_def split: task.splits)

lemma settled_with_None_iff:
  "settled_with w p = None \<longleftrightarrow> (p < length (tasks w) \<longrightarrow> unsettled (tasks w ! p))"
  by (auto simp: settled_with_def unsettled_def split: task.splits)

lemma soundI:
  assumes "\<And>p. p < length (tasks (web t)) \<Longrightarrow> unsettled (tasks (web t) ! p) \<Longrightarrow>
              isRefreshing (web t) \<and> refreshPromise (web t) = Some p"
    and "\<And>p. refreshPromise (web t) = Some p \<Longrightarrow> p < length (tasks (web t))"
    and "\<And>p. posts_ok (tasks (web t)) p (posts_by p (web t))"
    and "\<And>c cfg p. (c, cfg, p) \<in> set (waiting t) \<Longrightarrow>
              p < length (tasks (web t)) \<and> unsettled (tasks (web t) ! p)"
    and "\<And>c p out. (c, Some p, out) \<in> set (finished t) \<Longrightarrow>
              \<exists>a cfg. settled_with (web t) p = Some a \<and> out = outcome_for cfg a"
  shows "sound t"
  unfolding sound_def using assms by blast

lemma sound_unsettled:
  "sound t \<Longrightarrow> p < length (tasks (web t)) \<Longrightarrow> unsettled (tasks (web t) ! p) \<Longrightarrow>
   isRefreshing (web t) \<and> refreshPromise (web t) = Some p"
  unfolding sound_def by blast

lemma sound_promise:
  "sound t \<Longrightarrow> refreshPromise (web t) = Some p \<Longrightarrow> p < length (tasks (web t))"
  unfolding sound_def by blast

lemma sound_posts: "sound t \<Longrightarrow> posts_ok (tasks (web t)) p (posts_by p (web t))"
  unfolding sound_def by blast

lemma sound_waiting:
  "sound t \<Longrightarrow> (c, cfg, p) \<in> set (waiting t) \<Longrightarrow>
   p < length (tasks (web t)) \<and> unsettled (tasks (web t) ! p)"
  unfolding sound_def by blast

lemma sound_finished:
  "sound t \<Longrightarrow> (c, Some p, out) \<in> set (finished t) \<Longrightarrow>
   \<exists>a cfg. settled_with (web t) p = Some a \<and> out = outcome_for cfg a"
  unfolding sound_def by blast

lemma sound_resume_calm:
  assumes snd: "sound t"
    and calm: "\<And>p. p < length (tasks (web t)) \<Longrightarrow> \<not> unsettled (tasks (web t) ! p)"
    and fin: "case po of None \<Rightarrow> True | Some p \<Rightarrow> settled_with (web t) p = Some a"
  shows "sound (t\<lparr> web := fst (response_error_resume cfg a (web t)),
                    finished := finished t @ [(c, po, snd (response_error_resume cfg a (web t)))] \<rparr>)"
proof (rule soundI)
  fix p
  assume "p < length (tasks (web (t\<lparr> web := fst (response_error_resume cfg a (web t)),
                    finished := finished t @ [(c, po, snd (response_error_resume cfg a (web t)))] \<rparr>)))"
    and "unsettled (tasks (web (t\<lparr> web := fst (response_error_resume cfg a (web t)),
                    finished := finished t @ [(c, po, snd (response_error_resume cfg a (web t)))] \<rparr>)) ! p)"
  then have False
    using calm [of p] by (simp add: resume_frame)
  then show "isRefreshing (web (t\<lparr> web := fst (response_error_resume cfg a (web t)),
                    finished := finished t @ [(c, po, snd (response_error_resume cfg a (web t)))] \<rparr>)) \<and>
    refreshPromise (web (t\<lparr> web := fst (response_error_resume cfg a (web t)),
                    finished := finished t @ [(c, po, snd (response_error_resume cfg a (web t)))] \<rparr>)) = Some p"
    by simp
next
  fix p
  assume "refreshPromise (web (t\<lparr> web := fst (response_error_resume cfg a (web t)),
                    finished := finished t @ [(c, po, snd (response_error_resume cfg a (web t)))] \<rparr>)) = Some p"
  then have "refreshPromise (fst (response_error_resume cfg a (web t))) = Some p"
    by simp
  then have "refreshPromise (web t) = Some p"
    by (rule resume_promise)
  from sound_promise [OF snd this] show "p < length (tasks (web (t\<lparr> web := fst (response_error_resume cfg a (web t)),
                    finished := finished t @ [(c, po, snd (response_error_resume cfg a (web t)))] \<rparr>)))"
    by (simp add: resume_frame)
next
  fix p
  show "posts_ok (tasks (web (t\<lparr> web := fst (response_error_resume cfg a (web t)),
                    finished := finished t @ [(c, po, snd (response_error_resume cfg a (web t)))] \<rparr>))) p
      (posts_by p (web (t\<lparr> web := fst (response_error_resume cfg a (web t)),
                    finished := finished t @ [(c, po, snd (response_error_resume cfg a (web t)))] \<rparr>)))"
    using sound_posts [OF snd, of p] by (simp add: resume_frame)
next
  fix c' cfg' p
  assume "(c', cfg', p) \<in> set (waiting (t\<lparr> web := fst (response_error_resume cfg a (web t)),
                    finished := finished t @ [(c, po, snd (response_error_resume cfg a (web t)))] \<rparr>))"
  then have "(c', cfg', p) \<in> set (waiting t)"
    by simp
  from sound_waiting [OF snd this]
  show "p < length (tasks (web (t\<lparr> web := fst (response_error_resume cfg a (web t)),
                    finished := finished t @ [(c, po, snd (response_error_resume cfg a (web t)))] \<rparr>))) \<and>
      unsettled (tasks (web (t\<lparr> web := fst (response_error_resume cfg a (web t)),
                    finished := finished t @ [(c, po, snd (response_error_resume cfg a (web t)))] \<rparr>)) ! p)"
    by (simp add: resume_frame)
next
  fix c' p out
  assume "(c', Some p, out) \<in> set (finished (t\<lparr> web := fst (response_error_resume cfg a (web t)),
                    finished := finished t @ [(c, po, snd (response_error_resume cfg a (web t)))] \<rparr>))"
  then consider "(c', Some p, out) \<in> set (finished t)"
    | "po = Some p" "out = outcome_for cfg a"
    by (auto simp: snd_response_error_resume)
  then show "\<exists>a' cfg'. settled_with (web (t\<lparr> web := fst (response_error_resume cfg a (web t)),
                    finished := finished t @ [(c, po, snd (response_error_resume cfg a (web t)))] \<rparr>)) p = Some a' \<and>
      out = outcome_for cfg' a'"
  proof cases
    case 1
    from sound_finished [OF snd this] show ?thesis
      by simp
  next
    case 2
    with fin show ?thesis
      by auto
  qed
qed

lemma resume_waiting_promise:
  "refreshPromise (fst (resume_waiting p a ws (w, fin))) = Some q \<Longrightarrow> refreshPromise w = Some q"
proof (induction p a ws "(w, fin)" arbitrary: w fin rule: resume_waiting.induct)
  case (1 p a acc)
  then show ?case by simp
next
  case (2 p a c cfg q' ws w fin)
  show ?case
  proof (cases "q' = p")
    case True
    with 2 have "refreshPromise (fst (response_error_resume cfg a w)) = Some q"
      by simp
    then show ?thesis
      by (rule resume_promise)
  next
    case False
    with 2 show ?thesis
      by simp
  qed
qed

lemma sound_frame:
  assumes "sound t"
    and "tasks (web t') = tasks (web t)"
    and "isRefreshing (web t') = isRefreshing (web t)"
    and "refreshPromise (web t') = refreshPromise (web t)"
    and "\<And>p. posts_by p (web t') = posts_by p (web t)"
    and "waiting t' = waiting t"
    and "set (finished t') \<subseteq> set (finished t) \<union> {(c, None, out) | c out. True}"
  shows "sound t'"
proof (rule soundI)
  fix p
  assume "p < length (tasks (web t'))" "unsettled (tasks (web t') ! p)"
  with sound_unsettled [OF assms(1), of p] show "isRefreshing (web t') \<and> refreshPromise (web t') = Some p"
    by (simp add: assms)
next
  fix p
  assume "refreshPromise (web t') = Some p"
  with sound_promise [OF assms(1), of p] show "p < length (tasks (web t'))"
    by (simp add: assms)
next
  fix p
  from sound_posts [OF assms(1), of p] show "posts_ok (tasks (web t')) p (posts_by p (web t'))"
    by (simp add: assms)
next
  fix c cfg p
  assume "(c, cfg, p) \<in> set (waiting t')"
  with sound_waiting [OF assms(1), of c cfg p]
  show "p < length (tasks (web t')) \<and> unsettled (tasks (web t') ! p)"
    by (simp add: assms)
next
  fix c p out
  assume "(c, Some p, out) \<in> set (finished t')"
  with assms(7) have "(c, Some p, out) \<in> set (finished t)"
    by auto
  from sound_finished [OF assms(1) this] obtain a cfg
    where "settled_with (web t) p = Some a" and "out = outcome_for cfg a"
    by blast
  moreover have "settled_with (web t') p = settled_with (web t) p"
    by (simp add: settled_with_def assms(2))
  ultimately show "\<exists>a cfg. settled_with (web t') p = Some a \<and> out = outcome_for cfg a"
    by auto
qed

lemma sound_one_unsettled:
  assumes "sound t" and "p < length (tasks (web t))" and "unsettled (tasks (web t) ! p)"
    and "q < length (tasks (web t))" and "unsettled (tasks (web t) ! q)"
  shows "q = p"
  using sound_unsettled [OF assms(1,2,3)] sound_unsettled [OF assms(1,4,5)] by simp

lemma deliver_idle:
  assumes "sound t"
  shows "deliver p t = t"
proof (cases "settled_with (web t) p")
  case None
  then show ?thesis
    by (simp add: deliver_def)
next
  case (Some a)
  then have "\<not> unsettled (tasks (web t) ! p)"
    by (simp add: settled_with_Some_iff unsettled_def)
  with sound_waiting [OF assms] have none: "\<forall>(c, cfg, q) \<in> set (waiting t). q \<noteq> p"
    by blast
  then have "filter (\<lambda>(c, cfg, q). q \<noteq> p) (waiting t) = waiting t"
    by (auto simp: filter_id_conv)
  with Some resume_waiting_none [OF none] show ?thesis
    by (simp add: deliver_def)
qed

lemma sound_advance:
  assumes snd: "sound t" and p: "p < length (tasks (web t))"
    and polling: "tasks (web t) ! p = Polling start"
  shows "sound (t\<lparr> web := (web t)\<lparr> tasks := (tasks (web t))[p := Fetching],
                                   sent := sent (web t) @ [PostRefresh (ByInterceptor p)] \<rparr> \<rparr>)"
proof (rule soundI)
  fix q
  assume "q < length (tasks (web (t\<lparr> web := (web t)\<lparr> tasks := (tasks (web t))[p := Fetching],
                                   sent := sent (web t) @ [PostRefresh (ByInterceptor p)] \<rparr> \<rparr>)))"
    and "unsettled (tasks (web (t\<lparr> web := (web t)\<lparr> tasks := (tasks (web t))[p := Fetching],
                                   sent := sent (web t) @ [PostRefresh (ByInterceptor p)] \<rparr> \<rparr>)) ! q)"
  then have "q < length (tasks (web t))" and "unsettled (tasks (web t) ! q)"
    using polling p by (auto simp: nth_list_update unsettled_def split: if_splits)
  from sound_unsettled [OF snd this]
  show "isRefreshing (web (t\<lparr> web := (web t)\<lparr> tasks := (tasks (web t))[p := Fetching],
                                   sent := sent (web t) @ [PostRefresh (ByInterceptor p)] \<rparr> \<rparr>)) \<and>
    refreshPromise (web (t\<lparr> web := (web t)\<lparr> tasks := (tasks (web t))[p := Fetching],
                                   sent := sent (web t) @ [PostRefresh (ByInterceptor p)] \<rparr> \<rparr>)) = Some q"
    by simp
next
  fix q
  assume "refreshPromise (web (t\<lparr> web := (web t)\<lparr> tasks := (tasks (web t))[p := Fetching],
                                   sent := sent (web t) @ [PostRefresh (ByInterceptor p)] \<rparr> \<rparr>)) = Some q"
  then have "refreshPromise (web t) = Some q"
    by simp
  from sound_promise [OF snd this]
  show "q < length (tasks (web (t\<lparr> web := (web t)\<lparr> tasks := (tasks (web t))[p := Fetching],
                                   sent := sent (web t) @ [PostRefresh (ByInterceptor p)] \<rparr> \<rparr>)))"
    by simp
next
  fix q
  from sound_posts [OF snd, of q]
  show "posts_ok (tasks (web (t\<lparr> web := (web t)\<lparr> tasks := (tasks (web t))[p := Fetching],
                                   sent := sent (web t) @ [PostRefresh (ByInterceptor p)] \<rparr> \<rparr>))) q
      (posts_by q (web (t\<lparr> web := (web t)\<lparr> tasks := (tasks (web t))[p := Fetching],
                                   sent := sent (web t) @ [PostRefresh (ByInterceptor p)] \<rparr> \<rparr>)))"
    using p polling
    by (auto simp: posts_ok_def posts_by_def nth_list_update split: if_splits task.splits)
next
  fix c cfg q
  assume "(c, cfg, q) \<in> set (waiting (t\<lparr> web := (web t)\<lparr> tasks := (tasks (web t))[p := Fetching],
                                   sent := sent (web t) @ [PostRefresh (ByInterceptor p)] \<rparr> \<rparr>))"
  then have "(c, cfg, q) \<in> set (waiting t)"
    by simp
  from sound_waiting [OF snd this]
  show "q < length (tasks (web (t\<lparr> web := (web t)\<lparr> tasks := (tasks (web t))[p := Fetching],
                                   sent := sent (web t) @ [PostRefresh (ByInterceptor p)] \<rparr> \<rparr>))) \<and>
    unsettled (tasks (web (t\<lparr> web := (web t)\<lparr> tasks := (tasks (web t))[p := Fetching],
                                   sent := sent (web t) @ [PostRefresh (ByInterceptor p)] \<rparr> \<rparr>)) ! q)"
    using p by (auto simp: nth_list_update unsettled_def)
next
  fix c q out
  assume "(c, Some q, out) \<in> set (finished (t\<lparr> web := (web t)\<lparr> tasks := (tasks (web t))[p := Fetching],
                                   sent := sent (web t) @ [PostRefresh (ByInterceptor p)] \<rparr> \<rparr>))"
  then have "(c, Some q, out) \<in> set (finished t)"
    by simp
  from sound_finished [OF snd this] obtain a cfg
    where a: "settled_with (web t) q = Some a" and out: "out = outcome_for cfg a"
    by blast
  from a polling have "q \<noteq> p"
    by (auto simp: settled_with_Some_iff)
  with a out
  show "\<exists>a cfg. settled_with (web (t\<lparr> web := (web t)\<lparr> tasks := (tasks (web t))[p := Fetching],
                                   sent := sent (web t) @ [PostRefresh (ByInterceptor p)] \<rparr> \<rparr>)) q = Some a \<and>
    out = outcome_for cfg a"
    by (auto simp: settled_with_Some_iff)
qed

lemma sound_settle:
  assumes snd: "sound t" and p: "p < length (tasks (web t))"
    and open_p: "unsettled (tasks (web t) ! p)"
    and tasks': "tasks w' = (tasks (web t))[p := Settled a]"
    and flag': "isRefreshing w' = isRefreshing (web t)"
    and promise': "refreshPromise w' = refreshPromise (web t)"
    and posts': "\<And>q. posts_by q w' = posts_by q (web t)"
  shows "sound (deliver p (t\<lparr> web := w' \<rparr>))"
proof -
  define r where "r = resume_waiting p a (waiting t) (w', finished t)"
  define t' where
    "t' = t\<lparr> web := fst r, finished := snd r,
             waiting := filter (\<lambda>(c, cfg, q). q \<noteq> p) (waiting t) \<rparr>"
  have settled: "settled_with w' p = Some a"
    using p by (simp add: settled_with_Some_iff tasks')
  then have deliver: "deliver p (t\<lparr> web := w' \<rparr>) = t'"
    by (simp add: deliver_def t'_def r_def)
  have frame: "tasks (fst r) = tasks w'" "\<And>q. posts_by q (fst r) = posts_by q w'"
    using resume_waiting_frame [of p a "waiting t" w' "finished t"] by (simp_all add: r_def)
  have others: "\<not> unsettled (tasks (web t) ! q)" if "q < length (tasks (web t))" "q \<noteq> p" for q
    using sound_one_unsettled [OF snd p open_p that(1)] that(2) by blast
  have calm: "\<not> unsettled (tasks (fst r) ! q)" if "q < length (tasks (fst r))" for q
  proof (cases "q = p")
    case True
    with p show ?thesis
      by (simp add: frame tasks' unsettled_def)
  next
    case False
    with that others [of q] show ?thesis
      by (simp add: frame tasks')
  qed
  have "sound t'"
  proof (rule soundI)
    fix q
    assume "q < length (tasks (web t'))" "unsettled (tasks (web t') ! q)"
    with calm [of q] show "isRefreshing (web t') \<and> refreshPromise (web t') = Some q"
      by (simp add: t'_def)
  next
    fix q
    assume "refreshPromise (web t') = Some q"
    then have "refreshPromise (fst (resume_waiting p a (waiting t) (w', finished t))) = Some q"
      by (simp add: t'_def r_def)
    then have "refreshPromise w' = Some q"
      by (rule resume_waiting_promise)
    with sound_promise [OF snd, of q] show "q < length (tasks (web t'))"
      by (simp add: t'_def frame tasks' promise')
  next
    fix q
    from sound_posts [OF snd, of q] sound_posts [OF snd, of p] p open_p
    show "posts_ok (tasks (web t')) q (posts_by q (web t'))"
      by (auto simp: t'_def frame tasks' posts' posts_ok_def nth_list_update unsettled_def
          split: if_splits task.splits)
  next
    fix c cfg q
    assume "(c, cfg, q) \<in> set (waiting t')"
    then have w: "(c, cfg, q) \<in> set (waiting t)" and "q \<noteq> p"
      by (simp_all add: t'_def)
    from sound_waiting [OF snd w] others [of q] \<open>q \<noteq> p\<close>
    show "q < length (tasks (web t')) \<and> unsettled (tasks (web t') ! q)"
      by blast
  next
    fix c q out
    assume "(c, Some q, out) \<in> set (finished t')"
    then have "(c, Some q, out) \<in> set (snd (resume_waiting p a (waiting t) (w', finished t)))"
      by (simp add: t'_def r_def)
    with resume_waiting_finished [of p a "waiting t" w' "finished t"]
    consider "(c, Some q, out) \<in> set (finished t)" | cfg where "q = p" "out = outcome_for cfg a"
      by auto
    then show "\<exists>a cfg. settled_with (web t') q = Some a \<and> out = outcome_for cfg a"
    proof cases
      case 1
      from sound_finished [OF snd this] obtain b cfg
        where b: "settled_with (web t) q = Some b" and out: "out = outcome_for cfg b"
        by blast
      from b open_p have "q \<noteq> p"
        by (auto simp: settled_with_Some_iff unsettled_def)
      with b have "settled_with (web t') q = Some b"
        by (simp add: settled_with_Some_iff t'_def frame tasks')
      with out show ?thesis
        by blast
    next
      case 2
      with p have "settled_with (web t') q = Some a"
        by (simp add: settled_with_Some_iff t'_def frame tasks')
      with 2 show ?thesis
        by blast
    qed
  qed
  with deliver show ?thesis
    by simp
qed

lemma doRefresh_wake_cases:
  obtains (same) "doRefresh_wake p w = w"
  | (reuse) start a where "p < length (tasks w)" "tasks w ! p = Polling start"
      "\<not> refresh_in_progress w"
      "doRefresh_wake p w = w\<lparr> tasks := (tasks w)[p := Settled a] \<rparr>"
  | (post) start where "p < length (tasks w)" "tasks w ! p = Polling start"
      "refresh_in_progress w \<longrightarrow> \<not> clock w - start < 5000"
      "doRefresh_wake p w = w\<lparr> tasks := (tasks w)[p := Fetching],
                                 sent := sent w @ [PostRefresh (ByInterceptor p)] \<rparr>"
proof (cases "p < length (tasks w)")
  case False
  then have "doRefresh_wake p w = w"
    by (simp add: doRefresh_wake_def)
  then show ?thesis
    by (rule same)
next
  case True
  show ?thesis
  proof (cases "tasks w ! p")
    case (Polling start)
    consider "refresh_in_progress w \<and> clock w - start < 5000"
      | "\<not> (refresh_in_progress w \<and> clock w - start < 5000)"
        "\<not> refresh_in_progress w \<and> reuse_local (cryptics_auth w) \<noteq> None"
      | "\<not> (refresh_in_progress w \<and> clock w - start < 5000)"
        "\<not> (\<not> refresh_in_progress w \<and> reuse_local (cryptics_auth w) \<noteq> None)"
      by blast
    then show ?thesis
    proof cases
      case 1
      with True Polling have "doRefresh_wake p w = w"
        by (simp add: doRefresh_wake_def)
      then show ?thesis
        by (rule same)
    next
      case 2
      with True Polling obtain a where
        "doRefresh_wake p w = w\<lparr> tasks := (tasks w)[p := Settled a] \<rparr>"
        by (simp add: doRefresh_wake_def)
      with True Polling 2 show ?thesis
        by (intro reuse [where start = start and a = a]) simp_all
    next
      case 3
      with True Polling have
        "doRefresh_wake p w = w\<lparr> tasks := (tasks w)[p := Fetching],
                                 sent := sent w @ [PostRefresh (ByInterceptor p)] \<rparr>"
        by (auto simp: doRefresh_wake_def)
      with True Polling 3 show ?thesis
        by (intro post [where start = start]) auto
    qed
  next
    case Fetching
    with True have "doRefresh_wake p w = w"
      by (simp add: doRefresh_wake_def)
    then show ?thesis
      by (rule same)
  next
    case (Settled a)
    with True have "doRefresh_wake p w = w"
      by (simp add: doRefresh_wake_def)
    then show ?thesis
      by (rule same)
  qed
qed

lemma doRefresh_respond_cases:
  obtains (same) "doRefresh_respond p resp w = w"
  | (settle) a f where "p < length (tasks w)" "tasks w ! p = Fetching"
      "doRefresh_respond p resp w = w\<lparr> tasks := (tasks w)[p := Settled a],
                                         refresh_in_progress := f \<rparr>"
      "f \<longrightarrow> refresh_in_progress w"
proof (cases "p < length (tasks w) \<and> tasks w ! p = Fetching")
  case False
  then have "doRefresh_respond p resp w = w"
    by (auto simp: doRefresh_respond_def)
  then show ?thesis
    by (rule same)
next
  case True
  show ?thesis
  proof (cases resp)
    case NetFail
    with True have "doRefresh_respond p resp w =
        w\<lparr> tasks := (tasks w)[p := Settled (Rejected (Thrown NetworkError))],
            refresh_in_progress := refresh_in_progress w \<rparr>"
      by (simp add: doRefresh_respond_def)
    with True show ?thesis
      by (intro settle [where f = "refresh_in_progress w"]) simp_all
  next
    case (Http status body)
    define a where "a =
        (if \<not> (200 \<le> status \<and> status \<le> 299) then Rejected (RefreshStatus status)
         else case body of None \<Rightarrow> Rejected (Thrown SyntaxError) | Some js \<Rightarrow> Fulfilled js)"
    from True Http have "doRefresh_respond p resp w =
        w\<lparr> tasks := (tasks w)[p := Settled a], refresh_in_progress := False \<rparr>"
      by (simp add: doRefresh_respond_def a_def split: option.splits)
    with True show ?thesis
      by (intro settle [where f = False and a = a]) simp_all
  qed
qed

lemma sound_wake:
  assumes "sound t"
  shows "sound (step (Wake p) t)"
proof (cases p "web t" rule: doRefresh_wake_cases)
  case same
  with assms show ?thesis
    by (simp add: deliver_idle)
next
  case (reuse start a)
  have "sound (deliver p (t\<lparr> web := doRefresh_wake p (web t) \<rparr>))"
    using assms reuse by (intro sound_settle) (simp_all add: unsettled_def)
  then show ?thesis
    by simp
next
  case (post start)
  let ?t = "t\<lparr> web := doRefresh_wake p (web t) \<rparr>"
  have snd: "sound ?t"
    unfolding post(4) using assms post(1,2) by (rule sound_advance)
  then have "deliver p ?t = ?t"
    by (rule deliver_idle)
  with snd show ?thesis
    by simp
qed

lemma sound_answer:
  assumes "sound t"
  shows "sound (step (Answer p resp) t)"
proof (cases p resp "web t" rule: doRefresh_respond_cases)
  case same
  with assms show ?thesis
    by (simp add: deliver_idle)
next
  case (settle a f)
  have "sound (deliver p (t\<lparr> web := doRefresh_respond p resp (web t) \<rparr>))"
    using assms settle by (intro sound_settle) (simp_all add: unsettled_def)
  then show ?thesis
    by simp
qed

lemma response_error_begin_401:
  "response_error_begin \<lparr> err_config = Some cfg, err_status = Some 401 \<rparr> w =
     (if retry_mark cfg then
        (w, RejectNow (RequestFailed \<lparr> err_config = Some cfg, err_status = Some 401 \<rparr>))
      else if isRefreshing w then (w, AwaitRefresh (cfg\<lparr> retry_mark := True \<rparr>) (refreshPromise w))
      else if cryptics_auth w = Some Unparseable then
        (logout_cleanup (w\<lparr> isRefreshing := True \<rparr>), RejectNow (Thrown SyntaxError))
      else
        (w\<lparr> isRefreshing := True, refresh_in_progress := True,
            tasks := tasks w @ [Polling (clock w)], refreshPromise := Some (length (tasks w)) \<rparr>,
         AwaitRefresh (cfg\<lparr> retry_mark := True \<rparr>) (Some (length (tasks w)))))"
  by (simp add: response_error_begin_def Let_def doRefresh_begin_def
      split: option.splits stored_json.splits)

lemma sound_start:
  assumes snd: "sound t" and idle: "\<not> isRefreshing (web t)"
  shows "sound (t\<lparr> web := (web t)\<lparr> isRefreshing := True, refresh_in_progress := True,
                        tasks := tasks (web t) @ [Polling (clock (web t))],
                        refreshPromise := Some (length (tasks (web t))) \<rparr>,
                    waiting := waiting t @ [(c, cfg, length (tasks (web t)))] \<rparr>)"
    (is "sound ?t'")
proof -
  have calm: "\<not> unsettled (tasks (web t) ! q)" if "q < length (tasks (web t))" for q
    using sound_unsettled [OF snd that] idle by blast
  show ?thesis
  proof (rule soundI)
    fix q
    assume "q < length (tasks (web ?t'))" and "unsettled (tasks (web ?t') ! q)"
    with calm [of q] have "q = length (tasks (web t))"
      by (cases "q < length (tasks (web t))") (simp_all add: nth_append)
    then show "isRefreshing (web ?t') \<and> refreshPromise (web ?t') = Some q"
      by simp
  next
    fix q
    assume "refreshPromise (web ?t') = Some q"
    then show "q < length (tasks (web ?t'))"
      by auto
  next
    fix q
    from sound_posts [OF snd, of q]
    show "posts_ok (tasks (web ?t')) q (posts_by q (web ?t'))"
      by (auto simp: posts_ok_def posts_by_def nth_append split: if_splits)
  next
    fix c' cfg' q
    assume "(c', cfg', q) \<in> set (waiting ?t')"
    then consider "(c', cfg', q) \<in> set (waiting t)" | "q = length (tasks (web t))"
      by auto
    then show "q < length (tasks (web ?t')) \<and> unsettled (tasks (web ?t') ! q)"
    proof cases
      case 1
      from sound_waiting [OF snd this] show ?thesis
        by (simp add: nth_append)
    next
      case 2
      then show ?thesis
        by (simp add: unsettled_def)
    qed
  next
    fix c' q out
    assume "(c', Some q, out) \<in> set (finished ?t')"
    then have "(c', Some q, out) \<in> set (finished t)"
      by simp
    from sound_finished [OF snd this] obtain a cfg'
      where "settled_with (web t) q = Some a" and "out = outcome_for cfg' a"
      by blast
    then show "\<exists>a cfg. settled_with (web ?t') q = Some a \<and> out = outcome_for cfg a"
      by (auto simp: settled_with_Some_iff nth_append)
  qed
qed

lemma sound_error401:
  assumes snd: "sound t"
  shows "sound (step (Error401 c cfg) t)"
proof -
  consider (marked) "retry_mark cfg"
    | (join) "\<not> retry_mark cfg" "isRefreshing (web t)"
    | (broken) "\<not> retry_mark cfg" "\<not> isRefreshing (web t)" "cryptics_auth (web t) = Some Unparseable"
    | (start) "\<not> retry_mark cfg" "\<not> isRefreshing (web t)" "cryptics_auth (web t) \<noteq> Some Unparseable"
    by blast
  then show ?thesis
  proof cases
    case marked
    then have "step (Error401 c cfg) t =
        t\<lparr> web := web t,
            finished := finished t @
              [(c, None, Reject (RequestFailed \<lparr> err_config = Some cfg, err_status = Some 401 \<rparr>))] \<rparr>"
      by (simp add: on_error401_def response_error_begin_401)
    moreover have "sound \<dots>"
      using snd by (rule sound_frame) auto
    ultimately show ?thesis
      by simp
  next
    case broken
    then have "step (Error401 c cfg) t =
        t\<lparr> web := logout_cleanup ((web t)\<lparr> isRefreshing := True \<rparr>),
            finished := finished t @ [(c, None, Reject (Thrown SyntaxError))] \<rparr>"
      by (simp add: on_error401_def response_error_begin_401)
    moreover have "sound \<dots>"
    proof (rule soundI)
      fix q
      assume "q < length (tasks (web (t\<lparr> web := logout_cleanup ((web t)\<lparr> isRefreshing := True \<rparr>),
            finished := finished t @ [(c, None, Reject (Thrown SyntaxError))] \<rparr>)))"
        and "unsettled (tasks (web (t\<lparr> web := logout_cleanup ((web t)\<lparr> isRefreshing := True \<rparr>),
            finished := finished t @ [(c, None, Reject (Thrown SyntaxError))] \<rparr>)) ! q)"
      then have "q < length (tasks (web t))" "unsettled (tasks (web t) ! q)"
        by simp_all
      from sound_unsettled [OF snd this] broken(2) have False
        by simp
      then show "isRefreshing (web (t\<lparr> web := logout_cleanup ((web t)\<lparr> isRefreshing := True \<rparr>),
            finished := finished t @ [(c, None, Reject (Thrown SyntaxError))] \<rparr>)) \<and>
          refreshPromise (web (t\<lparr> web := logout_cleanup ((web t)\<lparr> isRefreshing := True \<rparr>),
            finished := finished t @ [(c, None, Reject (Thrown SyntaxError))] \<rparr>)) = Some q"
        by simp
    next
      fix q
      assume "refreshPromise (web (t\<lparr> web := logout_cleanup ((web t)\<lparr> isRefreshing := True \<rparr>),
            finished := finished t @ [(c, None, Reject (Thrown SyntaxError))] \<rparr>)) = Some q"
      then have "refreshPromise (web t) = Some q"
        by simp
      from sound_promise [OF snd this]
      show "q < length (tasks (web (t\<lparr> web := logout_cleanup ((web t)\<lparr> isRefreshing := True \<rparr>),
            finished := finished t @ [(c, None, Reject (Thrown SyntaxError))] \<rparr>)))"
        by simp
    next
      fix q
      from sound_posts [OF snd, of q]
      show "posts_ok (tasks (web (t\<lparr> web := logout_cleanup ((web t)\<lparr> isRefreshing := True \<rparr>),
            finished := finished t @ [(c, None, Reject (Thrown SyntaxError))] \<rparr>))) q
          (posts_by q (web (t\<lparr> web := logout_cleanup ((web t)\<lparr> isRefreshing := True \<rparr>),
            finished := finished t @ [(c, None, Reject (Thrown SyntaxError))] \<rparr>)))"
        by simp
    next
      fix c' cfg' q
      assume "(c', cfg', q) \<in> set (waiting (t\<lparr> web := logout_cleanup ((web t)\<lparr> isRefreshing := True \<rparr>),
            finished := finished t @ [(c, None, Reject (Thrown SyntaxError))] \<rparr>))"
      then have "(c', cfg', q) \<in> set (waiting t)"
        by simp
      from sound_waiting [OF snd this]
      show "q < length (tasks (web (t\<lparr> web := logout_cleanup ((web t)\<lparr> isRefreshing := True \<rparr>),
            finished := finished t @ [(c, None, Reject (Thrown SyntaxError))] \<rparr>))) \<and>
          unsettled (tasks (web (t\<lparr> web := logout_cleanup ((web t)\<lparr> isRefreshing := True \<rparr>),
            finished := finished t @ [(c, None, Reject (Thrown SyntaxError))] \<rparr>)) ! q)"
        by simp
    next
      fix c' q out
      assume "(c', Some q, out) \<in> set (finished (t\<lparr> web := logout_cleanup ((web t)\<lparr> isRefreshing := True \<rparr>),
            finished := finished t @ [(c, None, Reject (Thrown SyntaxError))] \<rparr>))"
      then have "(c', Some q, out) \<in> set (finished t)"
        by simp
      from sound_finished [OF snd this]
      show "\<exists>a cfg. settled_with (web (t\<lparr> web := logout_cleanup ((web t)\<lparr> isRefreshing := True \<rparr>),
            finished := finished t @ [(c, None, Reject (Thrown SyntaxError))] \<rparr>)) q = Some a \<and>
          out = outcome_for cfg a"
        by (auto simp: settled_with_Some_iff)
    qed
    ultimately show ?thesis
      by simp
  next
    case start
    then have "step (Error401 c cfg) t =
        t\<lparr> web := (web t)\<lparr> isRefreshing := True, refresh_in_progress := True,
                        tasks := tasks (web t) @ [Polling (clock (web t))],
                        refreshPromise := Some (length (tasks (web t))) \<rparr>,
            waiting := waiting t @ [(c, cfg\<lparr> retry_mark := True \<rparr>, length (tasks (web t)))] \<rparr>"
      by (simp add: on_error401_def response_error_begin_401 settled_with_def)
    moreover have "sound \<dots>"
      using snd start(2) by (rule sound_start)
    ultimately show ?thesis
      by simp
  next
    case join
    show ?thesis
    proof (cases "refreshPromise (web t)")
      case None
      with join have "step (Error401 c cfg) t =
          t\<lparr> web := fst (response_error_resume (cfg\<lparr> retry_mark := True \<rparr>) (Fulfilled JNull) (web t)),
              finished := finished t @
                [(c, None, snd (response_error_resume (cfg\<lparr> retry_mark := True \<rparr>)
                                  (Fulfilled JNull) (web t)))] \<rparr>"
        by (simp add: on_error401_def response_error_begin_401)
      moreover have "sound \<dots>"
      proof (rule sound_resume_calm [OF snd])
        fix q
        assume "q < length (tasks (web t))"
        with sound_unsettled [OF snd this] None show "\<not> unsettled (tasks (web t) ! q)"
          by auto
      qed simp
      ultimately show ?thesis
        by simp
    next
      case (Some p)
      show ?thesis
      proof (cases "settled_with (web t) p")
        case None
        with join Some have "step (Error401 c cfg) t =
            t\<lparr> web := web t, waiting := waiting t @ [(c, cfg\<lparr> retry_mark := True \<rparr>, p)] \<rparr>"
          by (simp add: on_error401_def response_error_begin_401)
        moreover have "sound \<dots>"
        proof (rule soundI)
          fix q
          assume "q < length (tasks (web (t\<lparr> web := web t,
              waiting := waiting t @ [(c, cfg\<lparr> retry_mark := True \<rparr>, p)] \<rparr>)))"
            and "unsettled (tasks (web (t\<lparr> web := web t,
              waiting := waiting t @ [(c, cfg\<lparr> retry_mark := True \<rparr>, p)] \<rparr>)) ! q)"
          then have "q < length (tasks (web t))" "unsettled (tasks (web t) ! q)"
            by simp_all
          from sound_unsettled [OF snd this]
          show "isRefreshing (web (t\<lparr> web := web t,
              waiting := waiting t @ [(c, cfg\<lparr> retry_mark := True \<rparr>, p)] \<rparr>)) \<and>
            refreshPromise (web (t\<lparr> web := web t,
              waiting := waiting t @ [(c, cfg\<lparr> retry_mark := True \<rparr>, p)] \<rparr>)) = Some q"
            by simp
        next
          fix q
          assume "refreshPromise (web (t\<lparr> web := web t,
              waiting := waiting t @ [(c, cfg\<lparr> retry_mark := True \<rparr>, p)] \<rparr>)) = Some q"
          then have "refreshPromise (web t) = Some q"
            by simp
          from sound_promise [OF snd this]
          show "q < length (tasks (web (t\<lparr> web := web t,
              waiting := waiting t @ [(c, cfg\<lparr> retry_mark := True \<rparr>, p)] \<rparr>)))"
            by simp
        next
          fix q
          from sound_posts [OF snd, of q]
          show "posts_ok (tasks (web (t\<lparr> web := web t,
              waiting := waiting t @ [(c, cfg\<lparr> retry_mark := True \<rparr>, p)] \<rparr>))) q
            (posts_by q (web (t\<lparr> web := web t,
              waiting := waiting t @ [(c, cfg\<lparr> retry_mark := True \<rparr>, p)] \<rparr>)))"
            by simp
        next
          fix c' cfg' q
          assume "(c', cfg', q) \<in> set (waiting (t\<lparr> web := web t,
              waiting := waiting t @ [(c, cfg\<lparr> retry_mark := True \<rparr>, p)] \<rparr>))"
          then consider "(c', cfg', q) \<in> set (waiting t)" | "q = p"
            by auto
          then have "q < length (tasks (web t)) \<and> unsettled (tasks (web t) ! q)"
          proof cases
            case 1
            then show ?thesis
              by (rule sound_waiting [OF snd])
          next
            case 2
            with sound_promise [OF snd Some] None show ?thesis
              by (simp add: settled_with_None_iff)
          qed
          then show "q < length (tasks (web (t\<lparr> web := web t,
              waiting := waiting t @ [(c, cfg\<lparr> retry_mark := True \<rparr>, p)] \<rparr>))) \<and>
            unsettled (tasks (web (t\<lparr> web := web t,
              waiting := waiting t @ [(c, cfg\<lparr> retry_mark := True \<rparr>, p)] \<rparr>)) ! q)"
            by simp
        next
          fix c' q out
          assume "(c', Some q, out) \<in> set (finished (t\<lparr> web := web t,
              waiting := waiting t @ [(c, cfg\<lparr> retry_mark := True \<rparr>, p)] \<rparr>))"
          then have "(c', Some q, out) \<in> set (finished t)"
            by simp
          from sound_finished [OF snd this]
          show "\<exists>a cfg'. settled_with (web (t\<lparr> web := web t,
              waiting := waiting t @ [(c, cfg\<lparr> retry_mark := True \<rparr>, p)] \<rparr>)) q = Some a \<and>
            out = outcome_for cfg' a"
            by simp
        qed
        ultimately show ?thesis
          by simp
      next
        case (Some a)
        with join \<open>refreshPromise (web t) = Some p\<close> have "step (Error401 c cfg) t =
            t\<lparr> web := fst (response_error_resume (cfg\<lparr> retry_mark := True \<rparr>) a (web t)),
                finished := finished t @
                  [(c, Some p, snd (response_error_resume (cfg\<lparr> retry_mark := True \<rparr>) a (web t)))] \<rparr>"
          by (simp add: on_error401_def response_error_begin_401)
        moreover have "sound \<dots>"
        proof (rule sound_resume_calm [OF snd])
          fix q
          assume q: "q < length (tasks (web t))"
          show "\<not> unsettled (tasks (web t) ! q)"
          proof
            assume "unsettled (tasks (web t) ! q)"
            from sound_unsettled [OF snd q this] \<open>refreshPromise (web t) = Some p\<close>
            have "q = p" by simp
            with Some \<open>unsettled (tasks (web t) ! q)\<close> show False
              by (simp add: settled_with_Some_iff unsettled_def)
          qed
        qed (simp add: Some)
        ultimately show ?thesis
          by simp
      qed
    qed
  qed
qed

lemma sound_other:
  assumes "sound t"
  shows "sound (step (Elapse d) t)" and "sound (step Timer t)"
    and "sound (step (ProviderAnswer resp) t)" and "sound (step (ProfileAnswer r) t)"
    and "sound (step (Mount expMs) t)" and "sound (step (MountAnswer resp) t)"
    and "sound (step (MountProfileAnswer r) t)"
proof -
  show "sound (step (Elapse d) t)"
    using assms by (rule sound_frame) simp_all
  show "sound (step Timer t)"
    using assms by (rule sound_frame) (simp_all add: on_timer_def posts_by_def)
  show "sound (step (ProviderAnswer resp) t)"
    using assms
    by (rule sound_frame)
      (simp_all add: on_provider_answer_def split: http_response.splits option.splits sum.splits)
  show "sound (step (ProfileAnswer r) t)"
    using assms
    by (rule sound_frame)
      (simp_all add: on_profile_answer_def
        split: provider_pc.splits option.splits sum.splits)
  show "sound (step (Mount expMs) t)"
    using assms
    by (rule sound_frame)
      (simp_all add: on_mount_def posts_by_def
        split: option.splits stored_json.splits sum.splits)
  show "sound (step (MountAnswer resp) t)"
    using assms
    by (rule sound_frame)
      (simp_all add: on_mount_answer_def Let_def
        split: mount_pc.splits http_response.splits option.splits sum.splits json.splits)
  show "sound (step (MountProfileAnswer r) t)"
    using assms
    by (rule sound_frame)
      (simp_all add: on_mount_profile_def split: mount_pc.splits option.splits)
qed

lemma sound_step: "sound t \<Longrightarrow> sound (step e t)"
  by (cases e) (simp_all only: sound_error401 sound_wake sound_answer sound_other)

lemma run_snoc: "run (evs @ [e]) t = step e (run evs t)"
  by (simp add: run_def)

lemma sound_run: "sound t \<Longrightarrow> sound (run evs t)"
  by (induction evs rule: rev_induct) (simp_all add: run_snoc sound_step run_def)

lemma undisturbed_frame:
  assumes "undisturbed t"
    and "tasks (web t') = tasks (web t)"
    and "refresh_in_progress (web t) \<longrightarrow> refresh_in_progress (web t')"
    and "\<And>q. posts_by q (web t') = posts_by q (web t)"
  shows "undisturbed t'"
  using assms unfolding undisturbed_def by metis

lemma undisturbed_deliver:
  assumes "undisturbed t"
  shows "undisturbed (deliver p t)"
proof (cases "settled_with (web t) p")
  case None
  then show ?thesis
    using assms by (simp add: deliver_def)
next
  case (Some a)
  show ?thesis
    using assms
  proof (rule undisturbed_frame)
    show "tasks (web (deliver p t)) = tasks (web t)"
      using resume_waiting_frame [of p a "waiting t" "web t" "finished t"]
      by (simp add: deliver_def Some)
    show "refresh_in_progress (web t) \<longrightarrow> refresh_in_progress (web (deliver p t))"
      using resume_waiting_frame [of p a "waiting t" "web t" "finished t"]
      by (simp add: deliver_def Some)
    show "posts_by q (web (deliver p t)) = posts_by q (web t)" for q
      using resume_waiting_frame [of p a "waiting t" "web t" "finished t" q]
      by (simp add: deliver_def Some)
  qed
qed

lemma undisturbed_error401:
  assumes und: "undisturbed t"
  shows "undisturbed (step (Error401 c cfg) t)"
proof (cases "\<not> retry_mark cfg \<and> \<not> isRefreshing (web t) \<and> cryptics_auth (web t) \<noteq> Some Unparseable")
  case True
  then have eq: "web (step (Error401 c cfg) t) =
      (web t)\<lparr> isRefreshing := True, refresh_in_progress := True,
                tasks := tasks (web t) @ [Polling (clock (web t))],
                refreshPromise := Some (length (tasks (web t))) \<rparr>"
    by (simp add: on_error401_def response_error_begin_401 settled_with_def)
  show ?thesis
    unfolding undisturbed_def eq
  proof (intro conjI allI impI)
    fix p start
    show "refresh_in_progress ((web t)\<lparr> isRefreshing := True, refresh_in_progress := True,
                tasks := tasks (web t) @ [Polling (clock (web t))],
                refreshPromise := Some (length (tasks (web t))) \<rparr>)"
      by simp
  next
    fix p a
    assume "p < length (tasks ((web t)\<lparr> isRefreshing := True, refresh_in_progress := True,
                tasks := tasks (web t) @ [Polling (clock (web t))],
                refreshPromise := Some (length (tasks (web t))) \<rparr>)) \<and>
        tasks ((web t)\<lparr> isRefreshing := True, refresh_in_progress := True,
                tasks := tasks (web t) @ [Polling (clock (web t))],
                refreshPromise := Some (length (tasks (web t))) \<rparr>) ! p = Settled a"
    then have "p < length (tasks (web t)) \<and> tasks (web t) ! p = Settled a"
      by (cases "p < length (tasks (web t))") (auto simp: nth_append)
    with und have "posts_by p (web t) = 1"
      unfolding undisturbed_def by blast
    then show "posts_by p ((web t)\<lparr> isRefreshing := True, refresh_in_progress := True,
                tasks := tasks (web t) @ [Polling (clock (web t))],
                refreshPromise := Some (length (tasks (web t))) \<rparr>) = 1"
      by simp
  qed
next
  case False
  show ?thesis
    using und
  proof (rule undisturbed_frame)
    show "tasks (web (step (Error401 c cfg) t)) = tasks (web t)"
      using False
      by (auto simp: on_error401_def response_error_begin_401 resume_frame
          split: option.splits)
    show "refresh_in_progress (web t) \<longrightarrow> refresh_in_progress (web (step (Error401 c cfg) t))"
      using False
      by (auto simp: on_error401_def response_error_begin_401 resume_frame
          split: option.splits)
    show "posts_by q (web (step (Error401 c cfg) t)) = posts_by q (web t)" for q
      using False
      by (auto simp: on_error401_def response_error_begin_401 resume_frame
          split: option.splits)
  qed
qed

lemma undisturbed_wake:
  assumes und: "undisturbed t"
  shows "undisturbed (step (Wake p) t)"
proof -
  have "undisturbed (t\<lparr> web := doRefresh_wake p (web t) \<rparr>)"
  proof (cases p "web t" rule: doRefresh_wake_cases)
    case same
    then show ?thesis
      using und by (simp add: undisturbed_def)
  next
    case (reuse start a)
    with und have False
      unfolding undisturbed_def by blast
    then show ?thesis ..
  next
    case (post start)
    show ?thesis
      unfolding undisturbed_def
    proof (intro conjI allI impI)
      fix q start'
      assume "q < length (tasks (web (t\<lparr> web := doRefresh_wake p (web t) \<rparr>))) \<and>
        tasks (web (t\<lparr> web := doRefresh_wake p (web t) \<rparr>)) ! q = Polling start'"
      with post have "q < length (tasks (web t)) \<and> tasks (web t) ! q = Polling start'"
        by (cases "q = p") simp_all
      with und have "refresh_in_progress (web t)"
        unfolding undisturbed_def by blast
      with post show "refresh_in_progress (web (t\<lparr> web := doRefresh_wake p (web t) \<rparr>))"
        by simp
    next
      fix q a
      assume "q < length (tasks (web (t\<lparr> web := doRefresh_wake p (web t) \<rparr>))) \<and>
        tasks (web (t\<lparr> web := doRefresh_wake p (web t) \<rparr>)) ! q = Settled a"
      with post have "q < length (tasks (web t)) \<and> tasks (web t) ! q = Settled a" and "q \<noteq> p"
        by (cases "q = p"; simp)+
      with und have "posts_by q (web t) = 1"
        unfolding undisturbed_def by blast
      with post \<open>q \<noteq> p\<close> show "posts_by q (web (t\<lparr> web := doRefresh_wake p (web t) \<rparr>)) = 1"
        by (simp add: posts_by_def)
    qed
  qed
  then show ?thesis
    by (simp add: undisturbed_deliver)
qed

lemma undisturbed_answer:
  assumes snd: "sound t" and und: "undisturbed t"
  shows "undisturbed (step (Answer p resp) t)"
proof -
  have "undisturbed (t\<lparr> web := doRefresh_respond p resp (web t) \<rparr>)"
  proof (cases p resp "web t" rule: doRefresh_respond_cases)
    case same
    then show ?thesis
      using und by (simp add: undisturbed_def)
  next
    case (settle a f)
    have open_p: "unsettled (tasks (web t) ! p)"
      using settle(2) by (simp add: unsettled_def)
    have one: "posts_by p (web t) = 1"
      using sound_posts [OF snd, of p] settle(1,2) by (simp add: posts_ok_def)
    show ?thesis
      unfolding undisturbed_def
    proof (intro conjI allI impI)
      fix q start
      assume "q < length (tasks (web (t\<lparr> web := doRefresh_respond p resp (web t) \<rparr>))) \<and>
        tasks (web (t\<lparr> web := doRefresh_respond p resp (web t) \<rparr>)) ! q = Polling start"
      with settle have q: "q < length (tasks (web t))" "tasks (web t) ! q = Polling start" "q \<noteq> p"
        by (cases "q = p"; simp)+
      then have "unsettled (tasks (web t) ! q)"
        by (simp add: unsettled_def)
      with sound_unsettled [OF snd q(1)] sound_unsettled [OF snd settle(1) open_p] q(3)
      have False
        by simp
      then show "refresh_in_progress (web (t\<lparr> web := doRefresh_respond p resp (web t) \<rparr>))" ..
    next
      fix q b
      assume asm: "q < length (tasks (web (t\<lparr> web := doRefresh_respond p resp (web t) \<rparr>))) \<and>
        tasks (web (t\<lparr> web := doRefresh_respond p resp (web t) \<rparr>)) ! q = Settled b"
      show "posts_by q (web (t\<lparr> web := doRefresh_respond p resp (web t) \<rparr>)) = 1"
      proof (cases "q = p")
        case True
        with one settle show ?thesis
          by simp
      next
        case False
        with asm settle have "q < length (tasks (web t)) \<and> tasks (web t) ! q = Settled b"
          by simp
        with und have "posts_by q (web t) = 1"
          unfolding undisturbed_def by blast
        with settle show ?thesis
          by simp
      qed
    qed
  qed
  then show ?thesis
    by (simp add: undisturbed_deliver)
qed

lemma undisturbed_step:
  assumes "sound t" and "undisturbed t" and "interceptor_event e"
  shows "undisturbed (step e t)"
proof (cases e)
  case (Error401 c cfg)
  with assms(2) show ?thesis
    by (simp only: undisturbed_error401)
next
  case (Elapse d)
  with assms(2) show ?thesis
    by (simp add: undisturbed_def)
next
  case (Wake p)
  with assms(2) show ?thesis
    by (simp only: undisturbed_wake)
next
  case (Answer p resp)
  with assms(1,2) show ?thesis
    by (simp only: undisturbed_answer)
qed (use assms(3) in simp_all)

lemma undisturbed_run:
  "list_all interceptor_event evs \<Longrightarrow> undisturbed (run evs (loaded w))"
proof (induction evs rule: rev_induct)
  case Nil
  show ?case
    by (simp add: run_def loaded_def undisturbed_def)
next
  case (snoc e evs)
  then show ?case
    by (simp add: run_snoc undisturbed_step sound_run sound_loaded)
qed

lemma run_one_401:
  "run [Error401 1 \<lparr> url = ''/watchlist'', retry_mark = False, authorization = Some ''Bearer old'' \<rparr>]
     (loaded (web_init\<lparr> access_token := Some ''old'' \<rparr>)) =
   \<lparr> web = \<lparr> isRefreshing = True, refreshPromise = Some 0, tasks = [Polling 0],
             refresh_in_progress = True, cryptics_auth = None, access_token = Some ''old'',
             has_BroadcastChannel = True, clock = 0, sent = [] \<rparr>,
     waiting = [(1, \<lparr> url = ''/watchlist'', retry_mark = True,
                      authorization = Some ''Bearer old'' \<rparr>, 0)],
     finished = [], provider = ProviderIdle, mount = NotMounted \<rparr>"
  by (simp add: run_def loaded_def web_init_def on_error401_def response_error_begin_def
      doRefresh_begin_def settled_with_def Let_def)

lemma run_two_401:
  "run [Error401 1 \<lparr> url = ''/watchlist'', retry_mark = False, authorization = Some ''Bearer old'' \<rparr>,
        Error401 2 \<lparr> url = ''/user/me'', retry_mark = False, authorization = Some ''Bearer old'' \<rparr>,
        Elapse 5000, Wake 0,
        Answer 0 (Http 200 (Some (JObj [(''access_token'', JStr ''new'')])))]
     (loaded (web_init\<lparr> access_token := Some ''old'' \<rparr>)) =
   \<lparr> web = \<lparr> isRefreshing = False, refreshPromise = None,
             tasks = [Settled (Fulfilled (JObj [(''access_token'', JStr ''new'')]))],
             refresh_in_progress = False,
             cryptics_auth =
               Some (Parsed (JObj [(''access_token'', JStr ''new''), (''user'', JNull)])),
             access_token = Some ''new'', has_BroadcastChannel = True, clock = 5000,
             sent = [PostRefresh (ByInterceptor 0),
                     Broadcast (TokensMsg (Some (JStr ''new'')) (Some JNull)),
                     Broadcast (TokensMsg (Some (JStr ''new'')) (Some JNull))] \<rparr>,
     waiting = [],
     finished =
       [(1, Some 0, Retry \<lparr> url = ''/watchlist'', retry_mark = True,
                            authorization = Some ''Bearer new'' \<rparr>),
        (2, Some 0, Retry \<lparr> url = ''/user/me'', retry_mark = True,
                            authorization = Some ''Bearer new'' \<rparr>)],
     provider = ProviderIdle, mount = NotMounted \<rparr>"
  by (simp add: run_def loaded_def web_init_def on_error401_def response_error_begin_def
      doRefresh_begin_def settled_with_def Let_def doRefresh_wake_def doRefresh_respond_def
      deliver_def response_error_resume_def persist_tokens_def defined_props_def
      js_to_string_def)

lemma bearer_outcome_for: "bearer (outcome_for cfg a) = bearer (outcome_for cfg' a)"
  by (simp add: bearer_def outcome_for_def split: settled.splits sum.splits)

lemma rejection_outcome_for: "rejection (outcome_for cfg a) = rejection (outcome_for cfg' a)"
  by (simp add: rejection_def outcome_for_def split: settled.splits sum.splits)

lemma posts_ok_le: "posts_ok ts p n \<Longrightarrow> n \<le> 1"
  by (simp add: posts_ok_def split: if_splits task.splits)

lemma join_waiting:
  assumes snd: "sound t" and w: "(c1, cfg1, p) \<in> set (waiting t)" and fresh: "\<not> retry_mark cfg2"
  shows "step (Error401 c2 cfg2) t =
    t\<lparr> waiting := waiting t @ [(c2, cfg2\<lparr> retry_mark := True \<rparr>, p)] \<rparr>"
proof -
  from sound_waiting [OF snd w]
  have p: "p < length (tasks (web t))" and open_p: "unsettled (tasks (web t) ! p)"
    by simp_all
  from sound_unsettled [OF snd p open_p]
  have "isRefreshing (web t)" and "refreshPromise (web t) = Some p"
    by simp_all
  moreover have "settled_with (web t) p = None"
    using p open_p by (simp add: settled_with_None_iff)
  ultimately show ?thesis
    using fresh by (simp add: on_error401_def response_error_begin_401)
qed

text \<open>
  What the guard of the response interceptor does ensure. Take any state \<open>t\<close> that a
  tab reaches from a page load by any sequence of events. At most one call of \<open>doRefresh\<close>
  is unsettled, and no call has sent more than one POST. A 401 for a request not yet marked
  that arrives while a handler waits for call \<open>p\<close> makes its handler wait for \<open>p\<close>
  too: no new call, nothing sent. Two handlers that have returned after waiting for the
  same call \<open>p\<close> both returned what the handler returns for what \<open>p\<close> settled with:
  the same \<open>Bearer\<close> token on the request each sends again, or the same error for both;
  and when the events were those of the interceptor alone, call \<open>p\<close> has sent exactly
  one POST.
\<close>

theorem single_flight_refresh:
  "t = run evs (loaded w) \<Longrightarrow>
   (p < length (tasks (web t)) \<and> q < length (tasks (web t)) \<and>
    unsettled (tasks (web t) ! p) \<and> unsettled (tasks (web t) ! q) \<longrightarrow> p = q) \<and>
   posts_by p (web t) \<le> 1 \<and>
   ((c1, cfg1, p) \<in> set (waiting t) \<and> \<not> retry_mark cfg2 \<longrightarrow>
      step (Error401 c2 cfg2) t =
        t\<lparr> waiting := waiting t @ [(c2, cfg2\<lparr> retry_mark := True \<rparr>, p)] \<rparr>) \<and>
   ((c1, Some p, out1) \<in> set (finished t) \<and> (c2, Some p, out2) \<in> set (finished t) \<longrightarrow>
      (\<exists>a orig1 orig2. settled_with (web t) p = Some a \<and>
         out1 = outcome_for orig1 a \<and> out2 = outcome_for orig2 a) \<and>
      bearer out1 = bearer out2 \<and> rejection out1 = rejection out2 \<and>
      (list_all interceptor_event evs \<longrightarrow> posts_by p (web t) = 1))"
proof -
  assume t: "t = run evs (loaded w)"
  then have snd: "sound t"
    by (simp add: sound_run sound_loaded)
  have one: "p < length (tasks (web t)) \<and> q < length (tasks (web t)) \<and>
      unsettled (tasks (web t) ! p) \<and> unsettled (tasks (web t) ! q) \<longrightarrow> p = q"
  proof
    assume a: "p < length (tasks (web t)) \<and> q < length (tasks (web t)) \<and>
      unsettled (tasks (web t) ! p) \<and> unsettled (tasks (web t) ! q)"
    then have "refreshPromise (web t) = Some p" and "refreshPromise (web t) = Some q"
      using sound_unsettled [OF snd, of p] sound_unsettled [OF snd, of q] by simp_all
    then show "p = q"
      by simp
  qed
  have most: "posts_by p (web t) \<le> 1"
    using sound_posts [OF snd, of p] by (rule posts_ok_le)
  have join: "(c1, cfg1, p) \<in> set (waiting t) \<and> \<not> retry_mark cfg2 \<longrightarrow>
      step (Error401 c2 cfg2) t =
        t\<lparr> waiting := waiting t @ [(c2, cfg2\<lparr> retry_mark := True \<rparr>, p)] \<rparr>"
    using join_waiting [OF snd] by blast
  have same: "(\<exists>a orig1 orig2. settled_with (web t) p = Some a \<and>
         out1 = outcome_for orig1 a \<and> out2 = outcome_for orig2 a) \<and>
      bearer out1 = bearer out2 \<and> rejection out1 = rejection out2 \<and>
      (list_all interceptor_event evs \<longrightarrow> posts_by p (web t) = 1)"
    if f1: "(c1, Some p, out1) \<in> set (finished t)" and f2: "(c2, Some p, out2) \<in> set (finished t)"
  proof -
    from sound_finished [OF snd f1] obtain a orig1
      where a: "settled_with (web t) p = Some a" and o1: "out1 = outcome_for orig1 a"
      by blast
    from sound_finished [OF snd f2] obtain b orig2
      where b: "settled_with (web t) p = Some b" and o2: "out2 = outcome_for orig2 b"
      by blast
    from a b have ab: "b = a"
      by simp
    have "\<exists>a orig1 orig2. settled_with (web t) p = Some a \<and>
         out1 = outcome_for orig1 a \<and> out2 = outcome_for orig2 a"
      using a o1 o2 ab by blast
    moreover have "bearer out1 = bearer out2"
      unfolding o1 o2 ab by (rule bearer_outcome_for)
    moreover have "rejection out1 = rejection out2"
      unfolding o1 o2 ab by (rule rejection_outcome_for)
    moreover have "list_all interceptor_event evs \<longrightarrow> posts_by p (web t) = 1"
    proof
      assume "list_all interceptor_event evs"
      then have "undisturbed t"
        unfolding t by (rule undisturbed_run)
      moreover from a have "p < length (tasks (web t)) \<and> tasks (web t) ! p = Settled a"
        by (simp add: settled_with_Some_iff)
      ultimately show "posts_by p (web t) = 1"
        unfolding undisturbed_def by blast
    qed
    ultimately show ?thesis
      by blast
  qed
  from one most join same show ?thesis
    by blast
qed

lemma single_flight_refresh_example:
  "step (Error401 2 \<lparr> url = ''/user/me'', retry_mark = False, authorization = Some ''Bearer old'' \<rparr>)
     (run [Error401 1 \<lparr> url = ''/watchlist'', retry_mark = False,
                         authorization = Some ''Bearer old'' \<rparr>]
        (loaded (web_init\<lparr> access_token := Some ''old'' \<rparr>))) =
   \<lparr> web = \<lparr> isRefreshing = True, refreshPromise = Some 0, tasks = [Polling 0],
             refresh_in_progress = True, cryptics_auth = None, access_token = Some ''old'',
             has_BroadcastChannel = True, clock = 0, sent = [] \<rparr>,
     waiting = [(1, \<lparr> url = ''/watchlist'', retry_mark = True,
                      authorization = Some ''Bearer old'' \<rparr>, 0),
                (2, \<lparr> url = ''/user/me'', retry_mark = True,
                      authorization = Some ''Bearer old'' \<rparr>, 0)],
     finished = [], provider = ProviderIdle, mount = NotMounted \<rparr> \<and>
   finished
     (run [Error401 1 \<lparr> url = ''/watchlist'', retry_mark = False,
                         authorization = Some ''Bearer old'' \<rparr>,
           Error401 2 \<lparr> url = ''/user/me'', retry_mark = False,
                         authorization = Some ''Bearer old'' \<rparr>,
           Elapse 5000, Wake 0,
           Answer 0 (Http 200 (Some (JObj [(''access_token'', JStr ''new'')])))]
        (loaded (web_init\<lparr> access_token := Some ''old'' \<rparr>))) =
     [(1, Some 0, Retry \<lparr> url = ''/watchlist'', retry_mark = True,
                          authorization = Some ''Bearer new'' \<rparr>),
      (2, Some 0, Retry \<lparr> url = ''/user/me'', retry_mark = True,
                          authorization = Some ''Bearer new'' \<rparr>)] \<and>
   posts_by 0
     (web (run [Error401 1 \<lparr> url = ''/watchlist'', retry_mark = False,
                              authorization = Some ''Bearer old'' \<rparr>,
                Error401 2 \<lparr> url = ''/user/me'', retry_mark = False,
                              authorization = Some ''Bearer old'' \<rparr>,
                Elapse 5000, Wake 0,
                Answer 0 (Http 200 (Some (JObj [(''access_token'', JStr ''new'')])))]
             (loaded (web_init\<lparr> access_token := Some ''old'' \<rparr>)))) = 1 \<and>
   posts
     (web (run [Error401 1 \<lparr> url = ''/watchlist'', retry_mark = False,
                              authorization = Some ''Bearer old'' \<rparr>,
                Error401 2 \<lparr> url = ''/user/me'', retry_mark = False,
                              authorization = Some ''Bearer old'' \<rparr>,
                Elapse 5000, Wake 0,
                Answer 0 (Http 200 (Some (JObj [(''access_token'', JStr ''new'')])))]
             (loaded (web_init\<lparr> access_token := Some ''old'' \<rparr>)))) = 1"
  using single_flight_refresh
    [of "run [Error401 1 \<lparr> url = ''/watchlist'', retry_mark = False,
                            authorization = Some ''Bearer old'' \<rparr>]
           (loaded (web_init\<lparr> access_token := Some ''old'' \<rparr>))"
        "[Error401 1 \<lparr> url = ''/watchlist'', retry_mark = False,
                        authorization = Some ''Bearer old'' \<rparr>]"
        "web_init\<lparr> access_token := Some ''old'' \<rparr>"
        0 0 1
        "\<lparr> url = ''/watchlist'', retry_mark = True, authorization = Some ''Bearer old'' \<rparr>"
        "\<lparr> url = ''/user/me'', retry_mark = False, authorization = Some ''Bearer old'' \<rparr>"
        2]
    single_flight_refresh
    [of "run [Error401 1 \<lparr> url = ''/watchlist'', retry_mark = False,
                            authorization = Some ''Bearer old'' \<rparr>,
              Error401 2 \<lparr> url = ''/user/me'', retry_mark = False,
                            authorization = Some ''Bearer old'' \<rparr>,
              Elapse 5000, Wake 0,
              Answer 0 (Http 200 (Some (JObj [(''access_token'', JStr ''new'')])))]
           (loaded (web_init\<lparr> access_token := Some ''old'' \<rparr>))"
        "[Error401 1 \<lparr> url = ''/watchlist'', retry_mark = False,
                        authorization = Some ''Bearer old'' \<rparr>,
          Error401 2 \<lparr> url = ''/user/me'', retry_mark = False,
                        authorization = Some ''Bearer old'' \<rparr>,
          Elapse 5000, Wake 0,
          Answer 0 (Http 200 (Some (JObj [(''access_token'', JStr ''new'')])))]"
        "web_init\<lparr> access_token := Some ''old'' \<rparr>"
        0 0 1
        "\<lparr> url = ''/watchlist'', retry_mark = True, authorization = Some ''Bearer old'' \<rparr>"
        "\<lparr> url = ''/user/me'', retry_mark = False, authorization = Some ''Bearer old'' \<rparr>"
        2
        "Retry \<lparr> url = ''/watchlist'', retry_mark = True, authorization = Some ''Bearer new'' \<rparr>"
        "Retry \<lparr> url = ''/user/me'', retry_mark = True, authorization = Some ''Bearer new'' \<rparr>"]
    run_one_401 run_two_401
  by (simp add: posts_def posts_by_def)

text \<open>
  C1 does not hold where the provider takes part: the guard (\<open>isRefreshing\<close>,
  \<open>refreshPromise\<close>) is private to axios.ts, and the flag \<open>refresh_in_progress\<close> that is
  to make the two sides wait for each other is set by both and read by \<open>doRefresh\<close> alone,
  for five seconds.

  First run, in a browser without \<open>BroadcastChannel\<close> (where the provider has its timer):
  a 401 starts \<open>doRefresh\<close>, which sends its POST after its five seconds; the timer fires
  while that POST is unanswered, and \<open>doRefreshAndReschedule\<close> sends a second POST at
  once. Two refresh calls are in flight.

  Second run, in any browser: the page loads with a token that has expired, and the load
  effect of the provider sends its POST; a 401 starts \<open>doRefresh\<close>; the provider's POST
  is still unanswered after five seconds, and \<open>doRefresh\<close> sends a second one. Two
  refresh calls are in flight.

  Third run, without \<open>BroadcastChannel\<close>: the timer's POST is under way when a 401
  starts \<open>doRefresh\<close>; the answer brings the token \<open>new\<close>, and the provider removes the
  flag and goes on to \<open>GET /user/me\<close> before it writes \<open>cryptics_auth\<close>; \<open>doRefresh\<close>
  wakes, finds the flag gone and resolves with the token it reads from \<open>cryptics_auth\<close>,
  which is still \<open>old\<close>. One POST was sent, but the caller retries with \<open>Bearer old\<close>,
  and the handler has written \<open>old\<close> over the \<open>access_token\<close> the provider had stored.
\<close>

theorem refresh_not_single_flight:
  "sent (web (run [Mount None,
                    Error401 1 \<lparr> url = ''/watchlist'', retry_mark = False,
                                  authorization = Some ''Bearer old'' \<rparr>,
                    Elapse 5000, Wake 0, Timer]
               (loaded (web_init\<lparr> access_token := Some ''old'',
                                    has_BroadcastChannel := False \<rparr>)))) =
     [PostRefresh (ByInterceptor 0), PostRefresh ByProvider] \<and>
   tasks (web (run [Mount None,
                    Error401 1 \<lparr> url = ''/watchlist'', retry_mark = False,
                                  authorization = Some ''Bearer old'' \<rparr>,
                    Elapse 5000, Wake 0, Timer]
               (loaded (web_init\<lparr> access_token := Some ''old'',
                                    has_BroadcastChannel := False \<rparr>)))) = [Fetching] \<and>
   provider (run [Mount None,
                  Error401 1 \<lparr> url = ''/watchlist'', retry_mark = False,
                                authorization = Some ''Bearer old'' \<rparr>,
                  Elapse 5000, Wake 0, Timer]
               (loaded (web_init\<lparr> access_token := Some ''old'',
                                    has_BroadcastChannel := False \<rparr>))) = ProviderFetching \<and>
   sent (web (run [Mount (Some 1699999990000),
                    Error401 1 \<lparr> url = ''/watchlist'', retry_mark = False,
                                  authorization = Some ''Bearer old'' \<rparr>,
                    Elapse 5000, Wake 0]
               (loaded (web_init\<lparr> cryptics_auth :=
                                      Some (Parsed (JObj [(''access_token'', JStr ''old'')])),
                                    clock := 1700000000000 \<rparr>)))) =
     [PostRefresh ByLoad, PostRefresh (ByInterceptor 0)] \<and>
   tasks (web (run [Mount (Some 1699999990000),
                    Error401 1 \<lparr> url = ''/watchlist'', retry_mark = False,
                                  authorization = Some ''Bearer old'' \<rparr>,
                    Elapse 5000, Wake 0]
               (loaded (web_init\<lparr> cryptics_auth :=
                                      Some (Parsed (JObj [(''access_token'', JStr ''old'')])),
                                    clock := 1700000000000 \<rparr>)))) = [Fetching] \<and>
   mount (run [Mount (Some 1699999990000),
               Error401 1 \<lparr> url = ''/watchlist'', retry_mark = False,
                             authorization = Some ''Bearer old'' \<rparr>,
               Elapse 5000, Wake 0]
            (loaded (web_init\<lparr> cryptics_auth :=
                                   Some (Parsed (JObj [(''access_token'', JStr ''old'')])),
                                 clock := 1700000000000 \<rparr>))) =
     MountFetching (JObj [(''access_token'', JStr ''old'')]) \<and>
   finished (run [Mount (Some 3600000), MountProfileAnswer (Some (JObj [(''id'', JNum 7)])),
                  Timer,
                  Error401 1 \<lparr> url = ''/watchlist'', retry_mark = False,
                                authorization = Some ''Bearer old'' \<rparr>,
                  ProviderAnswer (Http 200 (Some (JObj [(''access_token'', JStr ''new'')]))),
                  Elapse 100, Wake 0]
               (loaded (web_init\<lparr> cryptics_auth :=
                                      Some (Parsed (JObj [(''access_token'', JStr ''old'')])),
                                    has_BroadcastChannel := False \<rparr>))) =
     [(1, Some 0, Retry \<lparr> url = ''/watchlist'', retry_mark = True,
                          authorization = Some ''Bearer old'' \<rparr>)] \<and>
   access_token
     (web (run [Mount (Some 3600000), MountProfileAnswer (Some (JObj [(''id'', JNum 7)])),
                Timer,
                Error401 1 \<lparr> url = ''/watchlist'', retry_mark = False,
                              authorization = Some ''Bearer old'' \<rparr>,
                ProviderAnswer (Http 200 (Some (JObj [(''access_token'', JStr ''new'')]))),
                Elapse 100, Wake 0]
             (loaded (web_init\<lparr> cryptics_auth :=
                                    Some (Parsed (JObj [(''access_token'', JStr ''old'')])),
                                  has_BroadcastChannel := False \<rparr>)))) = Some ''old'' \<and>
   access_token
     (web (run [Mount (Some 3600000), MountProfileAnswer (Some (JObj [(''id'', JNum 7)])),
                Timer,
                Error401 1 \<lparr> url = ''/watchlist'', retry_mark = False,
                              authorization = Some ''Bearer old'' \<rparr>,
                ProviderAnswer (Http 200 (Some (JObj [(''access_token'', JStr ''new'')])))]
             (loaded (web_init\<lparr> cryptics_auth :=
                                    Some (Parsed (JObj [(''access_token'', JStr ''old'')])),
                                  has_BroadcastChannel := False \<rparr>)))) = Some ''new''"
  by (simp add: run_def loaded_def web_init_def on_error401_def response_error_begin_def
      doRefresh_begin_def settled_with_def Let_def doRefresh_wake_def deliver_def
      on_timer_def on_mount_def on_mount_profile_def on_provider_answer_def initialized_def
      reuse_local_def response_error_resume_def persist_tokens_def defined_props_def
      js_to_string_def js_or_def)

end
